theory Spec2Isabelle
  imports Complex_Main "HOL-Library.Monad_Syntax"
begin

section \<open>The fluid solver of \<open>FluidGrid.cpp\<close>\<close>

text \<open>
  The solver works on square grids of side \<open>Size\<close>, each stored as a \<open>TArray<float>\<close>
  of \<open>Size * Size\<close> cells. The embedding keeps the shape of the C++ code:

  \<^item> \<open>int32\<close> values are \<open>int\<close>. The only products formed are cell offsets below
    \<open>Size * Size\<close>, the element count of an existing array, so no \<open>int32\<close> operation
    of the solver wraps around.
  \<^item> \<open>float\<close> values are \<open>real\<close>: the arithmetic is the exact one, without rounding,
    infinities or NaN.
  \<^item> A \<open>TArray<float>\<close> is a \<open>real list\<close>. \<open>TArray::operator[]\<close> checks its index
    and stops the program when it is out of range; a read or write is therefore a
    value of an \<open>option\<close> type, \<open>None\<close> being the failed range check, and every
    routine of the solver returns \<open>None\<close> as soon as one access fails.
  \<^item> A routine that mutates an array passed by reference returns the new array. No call
    in \<open>StepSimulation\<close> passes one array both as a parameter that is written and as one
    that is read, so nothing depends on aliasing.
  \<^item> \<open>UE_LOG\<close> calls and the render-target upload do not change the fields and are
    left out. What they read are cells that the code around them accesses as well and,
    in \<open>Diffuse\<close> and \<open>LinearSolve\<close>, the first \<open>min(Size, 10)\<close> cells of \<open>x\<close>.
\<close>

type_synonym field = "real list"

definition rd :: "field \<Rightarrow> int \<Rightarrow> real option" where
  "rd x k = (if 0 \<le> k \<and> k < int (length x) then Some (x ! nat k) else None)"

definition wr :: "field \<Rightarrow> int \<Rightarrow> real \<Rightarrow> field option" where
  "wr x k v = (if 0 \<le> k \<and> k < int (length x) then Some (x[nat k := v]) else None)"

text \<open>
  A counted loop \<open>for (i = a; i <= b; i++) body\<close> runs its body on the indices in
  order, threading the array through, and stops at the first failure.
\<close>

fun for_loop :: "int list \<Rightarrow> (int \<Rightarrow> 'a \<Rightarrow> 'a option) \<Rightarrow> 'a \<Rightarrow> 'a option" where
  "for_loop [] body s = Some s"
| "for_loop (i # is) body s = (case body i s of None \<Rightarrow> None | Some s' \<Rightarrow> for_loop is body s')"

text \<open>
  Modelled from the spec: \<open>IX\<close> is declared in \<open>FluidGrid.h\<close> but its body is not part
  of the sources; the specification gives the linear offset \<open>x + y*N\<close>.
\<close>

definition IX :: "int \<Rightarrow> int \<Rightarrow> int \<Rightarrow> int" where
  "IX N x y = x + y * N"

text \<open>
  \<open>FMath::Clamp\<close> and \<open>FMath::FloorToInt\<close> are engine functions: the clamp of a value
  into a closed interval, and the floor.
\<close>

definition Clamp :: "real \<Rightarrow> real \<Rightarrow> real \<Rightarrow> real" where
  "Clamp v lo hi = (if v < lo then lo else if v < hi then v else hi)"

definition FloorToInt :: "real \<Rightarrow> int" where
  "FloorToInt v = \<lfloor>v\<rfloor>"

subsection \<open>\<open>SetBoundary\<close>\<close>

definition SetBoundary_row :: "int \<Rightarrow> int \<Rightarrow> int \<Rightarrow> field \<Rightarrow> field option" where
  "SetBoundary_row N b i x = do {
     v \<leftarrow> rd x (IX N i 1);
     x \<leftarrow> wr x (IX N i 0) (if b = 2 then - v else v);
     w \<leftarrow> rd x (IX N i (N - 2));
     wr x (IX N i (N - 1)) (if b = 2 then - w else w)
   }"

definition SetBoundary_col :: "int \<Rightarrow> int \<Rightarrow> int \<Rightarrow> field \<Rightarrow> field option" where
  "SetBoundary_col N b j x = do {
     v \<leftarrow> rd x (IX N 1 j);
     x \<leftarrow> wr x (IX N 0 j) (if b = 1 then - v else v);
     w \<leftarrow> (if b = 1 then map_option uminus (rd x (IX N 1 j)) else rd x (IX N (N - 2) j));
     wr x (IX N (N - 1) j) w
   }"

definition SetBoundary_corners :: "int \<Rightarrow> field \<Rightarrow> field option" where
  "SetBoundary_corners N x = do {
     a \<leftarrow> rd x (IX N 1 0);
     c \<leftarrow> rd x (IX N 0 1);
     x \<leftarrow> wr x (IX N 0 0) (0.5 * (a + c));
     a \<leftarrow> rd x (IX N 1 (N - 1));
     c \<leftarrow> rd x (IX N 0 (N - 2));
     x \<leftarrow> wr x (IX N 0 (N - 1)) (0.5 * (a + c));
     a \<leftarrow> rd x (IX N (N - 2) 0);
     c \<leftarrow> rd x (IX N (N - 1) 1);
     x \<leftarrow> wr x (IX N (N - 1) 0) (0.5 * (a + c));
     a \<leftarrow> rd x (IX N (N - 2) (N - 1));
     c \<leftarrow> rd x (IX N (N - 1) (N - 2));
     wr x (IX N (N - 1) (N - 1)) (0.5 * (a + c))
   }"

definition SetBoundary :: "int \<Rightarrow> int \<Rightarrow> field \<Rightarrow> field option" where
  "SetBoundary N b x = do {
     x \<leftarrow> for_loop [1..N - 2] (SetBoundary_row N b) x;
     x \<leftarrow> for_loop [1..N - 2] (SetBoundary_col N b) x;
     SetBoundary_corners N x
   }"

subsection \<open>\<open>LinearSolve\<close> and \<open>Diffuse\<close>\<close>

definition LinearSolve_cell ::
  "int \<Rightarrow> field \<Rightarrow> real \<Rightarrow> real \<Rightarrow> int \<Rightarrow> int \<Rightarrow> field \<Rightarrow> field option" where
  "LinearSolve_cell N x0 a cRecip j i x = do {
     s \<leftarrow> rd x0 (IX N i j);
     e \<leftarrow> rd x (IX N (i + 1) j);
     w \<leftarrow> rd x (IX N (i - 1) j);
     u \<leftarrow> rd x (IX N i (j + 1));
     d \<leftarrow> rd x (IX N i (j - 1));
     wr x (IX N i j) ((s + a * (e + w + u + d)) * cRecip)
   }"

definition LinearSolve_sweep :: "int \<Rightarrow> field \<Rightarrow> real \<Rightarrow> real \<Rightarrow> field \<Rightarrow> field option" where
  "LinearSolve_sweep N x0 a cRecip x =
     for_loop [1..N - 2] (\<lambda>j. for_loop [1..N - 2] (LinearSolve_cell N x0 a cRecip j)) x"

definition LinearSolve :: "int \<Rightarrow> int \<Rightarrow> field \<Rightarrow> field \<Rightarrow> real \<Rightarrow> real \<Rightarrow> field option" where
  "LinearSolve N b x x0 a c =
     (let cRecip = 1 / c
      in for_loop [0..N - 1]
           (\<lambda>t x. do { x \<leftarrow> LinearSolve_sweep N x0 a cRecip x; SetBoundary N b x }) x)"

definition Diffuse :: "int \<Rightarrow> int \<Rightarrow> field \<Rightarrow> field \<Rightarrow> real \<Rightarrow> real \<Rightarrow> field option" where
  "Diffuse N b x x0 diff dt =
     (let a = dt * diff * of_int (N - 2) * of_int (N - 2)
      in LinearSolve N b x x0 a (1 + 4 * a))"

subsection \<open>\<open>Advect\<close>\<close>

definition Advect_trace :: "int \<Rightarrow> field \<Rightarrow> field \<Rightarrow> real \<Rightarrow> int \<Rightarrow> int \<Rightarrow> (real \<times> real) option" where
  "Advect_trace N velocX velocY dt j i =
     (let dtx = dt * of_int (N - 2);
          dty = dt * of_int (N - 2);
          Nfloat = of_int (N - 2)
      in do {
        u \<leftarrow> rd velocX (IX N i j);
        v \<leftarrow> rd velocY (IX N i j);
        Some (Clamp (of_int i - dtx * u) 0.5 (Nfloat + 0.5),
              Clamp (of_int j - dty * v) 0.5 (Nfloat + 0.5))
      })"

definition Advect_sample :: "int \<Rightarrow> field \<Rightarrow> real \<Rightarrow> real \<Rightarrow> real option" where
  "Advect_sample N d0 x y =
     (let i0 = FloorToInt x; i1 = i0 + 1;
          j0 = FloorToInt y; j1 = j0 + 1;
          s1 = x - of_int i0; s0 = 1 - s1;
          t1 = y - of_int j0; t0 = 1 - t1
      in do {
        d00 \<leftarrow> rd d0 (IX N i0 j0);
        d01 \<leftarrow> rd d0 (IX N i0 j1);
        d10 \<leftarrow> rd d0 (IX N i1 j0);
        d11 \<leftarrow> rd d0 (IX N i1 j1);
        Some (s0 * (t0 * d00 + t1 * d01) + s1 * (t0 * d10 + t1 * d11))
      })"

definition Advect_cell ::
  "int \<Rightarrow> field \<Rightarrow> field \<Rightarrow> field \<Rightarrow> real \<Rightarrow> int \<Rightarrow> int \<Rightarrow> field \<Rightarrow> field option" where
  "Advect_cell N d0 velocX velocY dt j i d = do {
     (x, y) \<leftarrow> Advect_trace N velocX velocY dt j i;
     v \<leftarrow> Advect_sample N d0 x y;
     wr d (IX N i j) v
   }"

definition Advect ::
  "int \<Rightarrow> int \<Rightarrow> field \<Rightarrow> field \<Rightarrow> field \<Rightarrow> field \<Rightarrow> real \<Rightarrow> field option" where
  "Advect N b d d0 velocX velocY dt = do {
     d \<leftarrow> for_loop [1..N - 2] (\<lambda>j. for_loop [1..N - 2] (Advect_cell N d0 velocX velocY dt j)) d;
     SetBoundary N b d
   }"

subsection \<open>\<open>Project\<close>\<close>

text \<open>
  The two arrays written by the first loop, and by the second, are threaded as a pair.
  The parameter \<open>div\<close> of the source is \<open>dv\<close> here.
\<close>

definition Project_div ::
  "int \<Rightarrow> field \<Rightarrow> field \<Rightarrow> int \<Rightarrow> int \<Rightarrow> field \<times> field \<Rightarrow> (field \<times> field) option" where
  "Project_div N velocX velocY j i pd = (case pd of (p, dv) \<Rightarrow> do {
     e \<leftarrow> rd velocX (IX N (i + 1) j);
     w \<leftarrow> rd velocX (IX N (i - 1) j);
     u \<leftarrow> rd velocY (IX N i (j + 1));
     d \<leftarrow> rd velocY (IX N i (j - 1));
     dv \<leftarrow> wr dv (IX N i j) ((- 0.5 * (e - w + u - d)) / of_int N);
     p \<leftarrow> wr p (IX N i j) 0;
     Some (p, dv)
   })"

definition Project_grad ::
  "int \<Rightarrow> field \<Rightarrow> int \<Rightarrow> int \<Rightarrow> field \<times> field \<Rightarrow> (field \<times> field) option" where
  "Project_grad N p j i vv = (case vv of (velocX, velocY) \<Rightarrow> do {
     e \<leftarrow> rd p (IX N (i + 1) j);
     w \<leftarrow> rd p (IX N (i - 1) j);
     vx \<leftarrow> rd velocX (IX N i j);
     velocX \<leftarrow> wr velocX (IX N i j) (vx - 0.5 * (e - w) * of_int N);
     u \<leftarrow> rd p (IX N i (j + 1));
     d \<leftarrow> rd p (IX N i (j - 1));
     vy \<leftarrow> rd velocY (IX N i j);
     velocY \<leftarrow> wr velocY (IX N i j) (vy - 0.5 * (u - d) * of_int N);
     Some (velocX, velocY)
   })"

text \<open>\<open>Project\<close> returns its four arrays in the order of its parameters.\<close>

definition Project ::
  "int \<Rightarrow> field \<Rightarrow> field \<Rightarrow> field \<Rightarrow> field \<Rightarrow> (field \<times> field \<times> field \<times> field) option" where
  "Project N velocX velocY p dv = do {
     (p, dv) \<leftarrow> for_loop [1..N - 2]
                  (\<lambda>j. for_loop [1..N - 2] (Project_div N velocX velocY j)) (p, dv);
     dv \<leftarrow> SetBoundary N 0 dv;
     p \<leftarrow> SetBoundary N 0 p;
     p \<leftarrow> LinearSolve N 0 p dv 1 6;
     (velocX, velocY) \<leftarrow> for_loop [1..N - 2]
                  (\<lambda>j. for_loop [1..N - 2] (Project_grad N p j)) (velocX, velocY);
     velocX \<leftarrow> SetBoundary N 1 velocX;
     velocY \<leftarrow> SetBoundary N 2 velocY;
     Some (velocX, velocY, p, dv)
   }"

subsection \<open>The solver object and \<open>StepSimulation\<close>\<close>

record solver =
  Size :: int
  Dt :: real
  Diffusion :: real
  Viscosity :: real
  Density :: field
  Vx :: field
  Vy :: field
  Vz :: field

text \<open>The local copies \<open>Vx0\<close>, \<open>Vy0\<close>, \<open>Density0\<close> of \<open>StepSimulation\<close> extend the object.\<close>

record frame = solver +
  Vx0 :: field
  Vy0 :: field
  Density0 :: field

definition AddDensity :: "int \<Rightarrow> int \<Rightarrow> real \<Rightarrow> solver \<Rightarrow> solver option" where
  "AddDensity x y amount s = do {
     v \<leftarrow> rd (Density s) (IX (Size s) x y);
     d \<leftarrow> wr (Density s) (IX (Size s) x y) (v + amount);
     Some (s\<lparr>Density := d\<rparr>)
   }"

definition AddVelocity :: "int \<Rightarrow> int \<Rightarrow> real \<Rightarrow> real \<Rightarrow> solver \<Rightarrow> solver option" where
  "AddVelocity x y amountX amountY s =
     (let index = IX (Size s) x y
      in do {
        u \<leftarrow> rd (Vx s) index;
        vx \<leftarrow> wr (Vx s) index (u + amountX);
        v \<leftarrow> rd (Vy s) index;
        vy \<leftarrow> wr (Vy s) index (v + amountY);
        Some (s\<lparr>Vx := vx, Vy := vy\<rparr>)
      })"

text \<open>The quotient of two \<open>int32\<close> values in C++ is rounded towards zero.\<close>

definition trunc_div :: "int \<Rightarrow> int \<Rightarrow> int" where
  "trunc_div a b = (if (a < 0) = (b < 0) then \<bar>a\<bar> div \<bar>b\<bar> else - (\<bar>a\<bar> div \<bar>b\<bar>))"

text \<open>Lines 151--152: the injection at the centre cell that opens every step.\<close>

definition Step_inject :: "solver \<Rightarrow> solver option" where
  "Step_inject s = do {
     s \<leftarrow> AddDensity (trunc_div (Size s) 2) (trunc_div (Size s) 2) 100 s;
     AddVelocity (trunc_div (Size s) 2) (trunc_div (Size s) 2) 1 0 s
   }"

text \<open>Lines 156--158: the three copies.\<close>

definition Step_copy :: "solver \<Rightarrow> frame" where
  "Step_copy s = solver.extend s \<lparr>Vx0 = Vx s, Vy0 = Vy s, Density0 = Density s\<rparr>"

text \<open>Lines 162--163.\<close>

definition Step_diffuse_velocity :: "frame \<Rightarrow> frame option" where
  "Step_diffuse_velocity f = do {
     vx \<leftarrow> Diffuse (Size f) 1 (Vx f) (Vx0 f) (Viscosity f) (Dt f);
     vy \<leftarrow> Diffuse (Size f) 2 (Vy f) (Vy0 f) (Viscosity f) (Dt f);
     Some (f\<lparr>Vx := vx, Vy := vy\<rparr>)
   }"

text \<open>Lines 166 and 173: \<open>Project(Vx, Vy, Vx0, Vy0)\<close>.\<close>

definition Step_project :: "frame \<Rightarrow> frame option" where
  "Step_project f = do {
     (vx, vy, p, dv) \<leftarrow> Project (Size f) (Vx f) (Vy f) (Vx0 f) (Vy0 f);
     Some (f\<lparr>Vx := vx, Vy := vy, Vx0 := p, Vy0 := dv\<rparr>)
   }"

text \<open>Lines 169--170.\<close>

definition Step_advect_velocity :: "frame \<Rightarrow> frame option" where
  "Step_advect_velocity f = do {
     vx \<leftarrow> Advect (Size f) 1 (Vx f) (Vx0 f) (Vx0 f) (Vy0 f) (Dt f);
     vy \<leftarrow> Advect (Size f) 2 (Vy f) (Vy0 f) (Vx0 f) (Vy0 f) (Dt f);
     Some (f\<lparr>Vx := vx, Vy := vy\<rparr>)
   }"

text \<open>Lines 176 and 179.\<close>

definition Step_density :: "frame \<Rightarrow> frame option" where
  "Step_density f = do {
     d \<leftarrow> Diffuse (Size f) 0 (Density f) (Density0 f) (Diffusion f) (Dt f);
     d \<leftarrow> Advect (Size f) 0 d (Density0 f) (Vx f) (Vy f) (Dt f);
     Some (f\<lparr>Density := d\<rparr>)
   }"

text \<open>Lines 156--179: everything \<open>StepSimulation\<close> does after the injection.\<close>

definition Step_solve :: "solver \<Rightarrow> solver option" where
  "Step_solve s = do {
     f \<leftarrow> Step_diffuse_velocity (Step_copy s);
     f \<leftarrow> Step_project f;
     f \<leftarrow> Step_advect_velocity f;
     f \<leftarrow> Step_project f;
     f \<leftarrow> Step_density f;
     Some (solver.truncate f)
   }"

definition StepSimulation :: "solver \<Rightarrow> solver option" where
  "StepSimulation s = do { s \<leftarrow> Step_inject s; Step_solve s }"

text \<open>
  Lines 151--166: \<open>StepSimulation\<close> up to and including the first \<open>Project\<close>. The frame it
  returns is the one the two \<open>Advect\<close> calls of lines 169--170 take their arguments from.
\<close>

definition Step_until_advect :: "solver \<Rightarrow> frame option" where
  "Step_until_advect s = do {
     s \<leftarrow> Step_inject s;
     f \<leftarrow> Step_diffuse_velocity (Step_copy s);
     Step_project f
   }"

subsection \<open>Notions used by the statements\<close>

text \<open>
  A field fits the grid when it has \<open>N * N\<close> cells, as the constructor allocates it.
  \<open>cell N x i j\<close> is the content of cell \<open>(i, j)\<close>, and \<open>put N x i j v\<close> the field
  with that cell overwritten.
\<close>

definition fits :: "int \<Rightarrow> field \<Rightarrow> bool" where
  "fits N x \<longleftrightarrow> int (length x) = N * N"

definition in_grid :: "int \<Rightarrow> int \<Rightarrow> int \<Rightarrow> bool" where
  "in_grid N i j \<longleftrightarrow> 0 \<le> i \<and> i < N \<and> 0 \<le> j \<and> j < N"

definition interior :: "int \<Rightarrow> int \<Rightarrow> int \<Rightarrow> bool" where
  "interior N i j \<longleftrightarrow> 1 \<le> i \<and> i \<le> N - 2 \<and> 1 \<le> j \<and> j \<le> N - 2"

definition cell :: "int \<Rightarrow> field \<Rightarrow> int \<Rightarrow> int \<Rightarrow> real" where
  "cell N x i j = x ! nat (IX N i j)"

definition put :: "int \<Rightarrow> field \<Rightarrow> int \<Rightarrow> int \<Rightarrow> real \<Rightarrow> field" where
  "put N x i j v = x[nat (IX N i j) := v]"

definition zeros :: "int \<Rightarrow> field" where
  "zeros N = replicate (nat (N * N)) 0"

text \<open>
  The content \<open>SetBoundary\<close> leaves in a cell that is not a corner, and in any cell,
  in terms of the field it started from.
\<close>

definition edge_val :: "int \<Rightarrow> int \<Rightarrow> field \<Rightarrow> int \<Rightarrow> int \<Rightarrow> real" where
  "edge_val N b x i j =
     (if j = 0 then (if b = 2 then - cell N x i 1 else cell N x i 1)
      else if j = N - 1 then (if b = 2 then - cell N x i (N - 2) else cell N x i (N - 2))
      else if i = 0 then (if b = 1 then - cell N x 1 j else cell N x 1 j)
      else if i = N - 1 then (if b = 1 then - cell N x 1 j else cell N x (N - 2) j)
      else cell N x i j)"

definition bnd_val :: "int \<Rightarrow> int \<Rightarrow> field \<Rightarrow> int \<Rightarrow> int \<Rightarrow> real" where
  "bnd_val N b x i j =
     (if i = 0 \<and> j = 0 then 0.5 * (edge_val N b x 1 0 + edge_val N b x 0 1)
      else if i = 0 \<and> j = N - 1 then 0.5 * (edge_val N b x 1 (N - 1) + edge_val N b x 0 (N - 2))
      else if i = N - 1 \<and> j = 0 then 0.5 * (edge_val N b x (N - 2) 0 + edge_val N b x (N - 1) 1)
      else if i = N - 1 \<and> j = N - 1
        then 0.5 * (edge_val N b x (N - 2) (N - 1) + edge_val N b x (N - 1) (N - 2))
      else edge_val N b x i j)"

text \<open>
  The interior loops visit the cells row by row (\<open>j\<close> outside, \<open>i\<close> inside).
  \<open>swept N j i i' j'\<close>: cell \<open>(i', j')\<close> has been visited when the loops stand at
  row \<open>j\<close>, column \<open>i\<close>.
\<close>

definition swept :: "int \<Rightarrow> int \<Rightarrow> int \<Rightarrow> int \<Rightarrow> int \<Rightarrow> bool" where
  "swept N j i i' j' \<longleftrightarrow> interior N i' j' \<and> (j' < j \<or> (j' = j \<and> i' < i))"

text \<open>
  The specification's reading of \<open>LinearSolve\<close>. One Gauss-Seidel sweep takes \<open>x\<close> to
  \<open>x'\<close>: every interior cell becomes \<open>(x0 + a * (sum of the four neighbours)) / c\<close>,
  where the neighbours visited earlier in the sweep (west and south) contribute their
  new content and the others their old content; cells on the boundary ring keep theirs.
  \<open>gs_rounds n\<close> chains \<open>n\<close> rounds, each a sweep followed by \<open>SetBoundary\<close>.
\<close>

definition gs_sweep :: "int \<Rightarrow> field \<Rightarrow> real \<Rightarrow> real \<Rightarrow> field \<Rightarrow> field \<Rightarrow> bool" where
  "gs_sweep N x0 a c x x' \<longleftrightarrow> fits N x' \<and>
     (\<forall>i j. in_grid N i j \<longrightarrow> cell N x' i j =
        (if interior N i j
         then (cell N x0 i j +
               a * (cell N x (i + 1) j + cell N x' (i - 1) j +
                    cell N x i (j + 1) + cell N x' i (j - 1))) / c
         else cell N x i j))"

fun gs_rounds ::
  "nat \<Rightarrow> int \<Rightarrow> int \<Rightarrow> field \<Rightarrow> real \<Rightarrow> real \<Rightarrow> field \<Rightarrow> field \<Rightarrow> bool" where
  "gs_rounds 0 N b x0 a c x y \<longleftrightarrow> y = x"
| "gs_rounds (Suc n) N b x0 a c x y \<longleftrightarrow>
     (\<exists>x' x''. gs_sweep N x0 a c x x' \<and> SetBoundary N b x' = Some x'' \<and>
        gs_rounds n N b x0 a c x'' y)"

text \<open>
  \<open>interior_map N g x x'\<close>: the field \<open>x'\<close> is \<open>x\<close> with the content of every interior
  cell \<open>(i, j)\<close> replaced by \<open>g i j\<close>. \<open>partial_map\<close> is the same for the cells visited
  so far, when the loops stand at row \<open>j\<close>, column \<open>i\<close>.
\<close>

definition interior_map :: "int \<Rightarrow> (int \<Rightarrow> int \<Rightarrow> real) \<Rightarrow> field \<Rightarrow> field \<Rightarrow> bool" where
  "interior_map N g x x' \<longleftrightarrow> fits N x' \<and>
     (\<forall>i j. in_grid N i j \<longrightarrow> cell N x' i j = (if interior N i j then g i j else cell N x i j))"

definition partial_map ::
  "int \<Rightarrow> int \<Rightarrow> int \<Rightarrow> (int \<Rightarrow> int \<Rightarrow> real) \<Rightarrow> field \<Rightarrow> field \<Rightarrow> bool" where
  "partial_map N j i g x x' \<longleftrightarrow> fits N x' \<and>
     (\<forall>i' j'. in_grid N i' j' \<longrightarrow>
        cell N x' i' j' = (if swept N j i i' j' then g i' j' else cell N x i' j'))"


text \<open>
  The solver as the constructor leaves it (all fields zero, the parameters at the
  defaults of \<open>FluidGrid.h\<close>), with \<open>Size\<close> set to 3.
\<close>

definition rest3 :: solver where
  "rest3 = \<lparr>Size = 3, Dt = 10.1, Diffusion = 1, Viscosity = 1,
     Density = [0, 0, 0, 0, 0, 0, 0, 0, 0], Vx = [0, 0, 0, 0, 0, 0, 0, 0, 0],
     Vy = [0, 0, 0, 0, 0, 0, 0, 0, 0], Vz = [0, 0, 0, 0, 0, 0, 0, 0, 0]\<rparr>"

section \<open>Cells, reads and writes\<close>

lemma IX_bounds:
  assumes "in_grid N i j"
  shows "0 \<le> IX N i j" and "IX N i j < N * N"
proof -
  from assms have n: "0 \<le> i" "i < N" "0 \<le> j" "j \<le> N - 1" "0 < N"
    by (auto simp: in_grid_def)
  show "0 \<le> IX N i j" using n by (simp add: IX_def)
  have "j * N \<le> (N - 1) * N" using n by (intro mult_right_mono) auto
  then show "IX N i j < N * N" using n by (simp add: IX_def algebra_simps)
qed

lemma IX_div_mod:
  assumes "in_grid N i j"
  shows "IX N i j mod N = i" and "IX N i j div N = j"
  using assms by (auto simp: in_grid_def IX_def)

lemma IX_inj:
  assumes "in_grid N i j" and "in_grid N i' j'"
  shows "IX N i j = IX N i' j' \<longleftrightarrow> i = i' \<and> j = j'"
  using IX_div_mod [OF assms(1)] IX_div_mod [OF assms(2)] by metis

lemma IX_cover:
  assumes "0 < N" and "0 \<le> k" and "k < N * N"
  shows "in_grid N (k mod N) (k div N)" and "IX N (k mod N) (k div N) = k"
proof -
  have "k div N < N"
  proof (rule ccontr)
    assume "\<not> k div N < N"
    then have "N * N \<le> N * (k div N)" using assms(1) by (intro mult_left_mono) auto
    moreover have "N * (k div N) + k mod N = k" by simp
    moreover have "0 \<le> k mod N" using assms(1) by simp
    ultimately show False using assms(3) by linarith
  qed
  moreover have "0 \<le> k div N" using assms by (simp add: pos_imp_zdiv_nonneg_iff)
  ultimately show "in_grid N (k mod N) (k div N)" using assms(1) by (simp add: in_grid_def)
  show "IX N (k mod N) (k div N) = k" by (simp add: IX_def)
qed

lemma rd_cell:
  assumes "fits N x" and "in_grid N i j"
  shows "rd x (IX N i j) = Some (cell N x i j)"
  using assms IX_bounds [OF assms(2)] by (simp add: rd_def fits_def cell_def)

lemma wr_put:
  assumes "fits N x" and "in_grid N i j"
  shows "wr x (IX N i j) v = Some (put N x i j v)"
  using assms IX_bounds [OF assms(2)] by (simp add: wr_def fits_def put_def)

lemma fits_put [simp]: "fits N (put N x i j v) = fits N x"
  by (simp add: fits_def put_def)

lemma cell_put:
  assumes "fits N x" and "in_grid N i j" and "in_grid N i' j'"
  shows "cell N (put N x i j v) i' j' = (if i' = i \<and> j' = j then v else cell N x i' j')"
proof -
  have "nat (IX N i j) < length x"
    using assms(1) IX_bounds [OF assms(2)] by (simp add: fits_def)
  moreover have "nat (IX N i' j') = nat (IX N i j) \<longleftrightarrow> i' = i \<and> j' = j"
    using IX_bounds(1) [OF assms(2)] IX_bounds(1) [OF assms(3)] IX_inj [OF assms(3) assms(2)]
    by (simp add: eq_nat_nat_iff)
  ultimately show ?thesis by (auto simp: cell_def put_def)
qed

lemma put_same: "fits N x \<Longrightarrow> in_grid N i j \<Longrightarrow> put N x i j (cell N x i j) = x"
  by (simp add: put_def cell_def)

lemma field_eqI:
  assumes "0 < N" and "fits N x" and "fits N y"
    and "\<And>i j. in_grid N i j \<Longrightarrow> cell N x i j = cell N y i j"
  shows "x = y"
proof (rule nth_equalityI)
  show "length x = length y" using assms(2,3) by (simp add: fits_def)
next
  fix k assume "k < length x"
  then have k: "0 \<le> int k" "int k < N * N" using assms(2) by (auto simp: fits_def)
  from assms(4) [OF IX_cover(1) [OF assms(1) k]] show "x ! k = y ! k"
    by (simp add: cell_def IX_cover(2) [OF assms(1) k])
qed

lemma interior_in_grid: "interior N i j \<Longrightarrow> in_grid N i j"
  by (auto simp: interior_def in_grid_def)

lemma interior_neighbours:
  assumes "interior N i j"
  shows "in_grid N (i + 1) j" "in_grid N (i - 1) j" "in_grid N i (j + 1)" "in_grid N i (j - 1)"
  using assms by (auto simp: interior_def in_grid_def)

lemma fits_zeros [simp]: "fits N (zeros N)"
  by (simp add: fits_def zeros_def)

lemma cell_zeros [simp]: "in_grid N i j \<Longrightarrow> cell N (zeros N) i j = 0"
  using IX_bounds [of N i j] by (simp add: cell_def zeros_def)

lemma replicate_update_same: "(replicate n v)[k := v] = replicate n v"
  by (cases "k < n") (simp_all add: list_update_same_conv list_update_beyond)

lemma put_zeros [simp]: "put N (zeros N) i j 0 = zeros N"
  by (simp add: put_def zeros_def replicate_update_same)

lemma interior_map_fits: "interior_map N g x x' \<Longrightarrow> fits N x'"
  by (simp add: interior_map_def)

lemma interior_map_unique:
  assumes "0 < N" and "interior_map N g x y" and "interior_map N g x z"
  shows "y = z"
  using assms(2,3) by (intro field_eqI [OF assms(1)]) (simp_all add: interior_map_def)

section \<open>Counted loops\<close>

lemma for_loop_from:
  assumes step: "\<And>i s. a \<le> i \<Longrightarrow> i \<le> b \<Longrightarrow> I i s \<Longrightarrow> \<exists>s'. body i s = Some s' \<and> I (i + 1) s'"
  shows "a \<le> k \<Longrightarrow> k \<le> b + 1 \<Longrightarrow> I k s \<Longrightarrow> \<exists>s'. for_loop [k..b] body s = Some s' \<and> I (b + 1) s'"
proof (induction "nat (b + 1 - k)" arbitrary: k s)
  case 0
  then have "k = b + 1" by simp
  with 0 show ?case by simp
next
  case (Suc n)
  then have kb: "k \<le> b" by linarith
  from step [OF Suc.prems(1) kb Suc.prems(3)] obtain s1
    where s1: "body k s = Some s1" "I (k + 1) s1" by blast
  have "\<exists>s'. for_loop [k + 1..b] body s1 = Some s' \<and> I (b + 1) s'"
  proof (rule Suc.hyps(1))
    show "n = nat (b + 1 - (k + 1))" using Suc.hyps(2) by linarith
    show "a \<le> k + 1" using Suc.prems(1) by simp
    show "k + 1 \<le> b + 1" using kb by simp
    show "I (k + 1) s1" by (rule s1)
  qed
  then show ?case using s1 kb by (simp add: upto_rec1 [of k b])
qed

lemma for_loop_upto:
  assumes "a \<le> b + 1" and "I a s"
    and "\<And>i s. a \<le> i \<Longrightarrow> i \<le> b \<Longrightarrow> I i s \<Longrightarrow> \<exists>s'. body i s = Some s' \<and> I (i + 1) s'"
  shows "\<exists>s'. for_loop [a..b] body s = Some s' \<and> I (b + 1) s'"
  using for_loop_from [of a b I body a s, OF assms(3)] assms(1,2) by simp


lemma swept_start [simp]: "swept N 1 1 i' j' = False"
  by (auto simp: swept_def interior_def)

lemma swept_next:
  assumes "interior N i j"
  shows "swept N j (i + 1) i' j' \<longleftrightarrow> swept N j i i' j' \<or> (i' = i \<and> j' = j)"
  using assms by (auto simp: swept_def)

lemma swept_row_end: "swept N j (N - 1) i' j' = swept N (j + 1) 1 i' j'"
  by (auto simp: swept_def interior_def)

lemma swept_end: "swept N (N - 1) 1 i' j' = interior N i' j'"
  by (auto simp: swept_def interior_def)

lemma grid_loop:
  assumes N: "3 \<le> N" and init: "I 1 1 s"
    and step: "\<And>i j s. interior N i j \<Longrightarrow> I j i s \<Longrightarrow> \<exists>s'. body j i s = Some s' \<and> I j (i + 1) s'"
    and row: "\<And>j s. I j (N - 1) s \<Longrightarrow> I (j + 1) 1 s"
  shows "\<exists>s'. for_loop [1..N - 2] (\<lambda>j. for_loop [1..N - 2] (body j)) s = Some s' \<and>
          I (N - 1) 1 s'"
proof -
  have e: "N - 2 + 1 = N - 1" by simp
  have "\<exists>s'. for_loop [1..N - 2] (\<lambda>j. for_loop [1..N - 2] (body j)) s = Some s' \<and>
          I (N - 2 + 1) 1 s'"
  proof (rule for_loop_upto [where I = "\<lambda>j. I j 1"])
    show "1 \<le> N - 2 + 1" using N by simp
    show "I 1 1 s" by (rule init)
  next
    fix j s assume j: "1 \<le> j" "j \<le> N - 2" and inv: "I j 1 s"
    have "\<exists>s'. for_loop [1..N - 2] (body j) s = Some s' \<and> I j (N - 2 + 1) s'"
    proof (rule for_loop_upto [where I = "I j"])
      show "1 \<le> N - 2 + 1" using N by simp
      show "I j 1 s" by (rule inv)
    next
      fix i s assume "1 \<le> i" "i \<le> N - 2" "I j i s"
      then show "\<exists>s'. body j i s = Some s' \<and> I j (i + 1) s'"
        using j by (intro step) (simp_all add: interior_def)
    qed
    then show "\<exists>s'. for_loop [1..N - 2] (body j) s = Some s' \<and> I (j + 1) 1 s'"
      unfolding e using row by blast
  qed
  then show ?thesis unfolding e .
qed

lemma partial_map_start: "fits N x \<Longrightarrow> partial_map N 1 1 g x x"
  by (simp add: partial_map_def)

lemma partial_map_row: "partial_map N j (N - 1) g x s \<Longrightarrow> partial_map N (j + 1) 1 g x s"
  by (simp add: partial_map_def swept_row_end)

lemma partial_map_end: "partial_map N (N - 1) 1 g x s = interior_map N g x s"
  by (simp add: partial_map_def interior_map_def swept_end)

lemma partial_map_here:
  assumes "partial_map N j i g x s" and "interior N i j"
  shows "cell N s i j = cell N x i j"
  using assms by (simp add: partial_map_def interior_in_grid swept_def)

lemma partial_map_fits: "partial_map N j i g x s \<Longrightarrow> fits N s"
  by (simp add: partial_map_def)

lemma partial_map_step:
  assumes pm: "partial_map N j i g x s" and ij: "interior N i j"
  shows "partial_map N j (i + 1) g x (put N s i j (g i j))"
  unfolding partial_map_def
proof (intro conjI allI impI)
  from pm have s: "fits N s" by (simp add: partial_map_def)
  then show "fits N (put N s i j (g i j))" by simp
  fix i' j' assume g': "in_grid N i' j'"
  from pm g' have "cell N s i' j' = (if swept N j i i' j' then g i' j' else cell N x i' j')"
    by (simp add: partial_map_def)
  then show "cell N (put N s i j (g i j)) i' j' =
      (if swept N j (i + 1) i' j' then g i' j' else cell N x i' j')"
    by (auto simp: cell_put [OF s interior_in_grid [OF ij] g'] swept_next [OF ij])
qed

section \<open>\<open>SetBoundary\<close>\<close>

lemma SetBoundary_row_eq:
  assumes N: "3 \<le> N" and x: "fits N x" and i: "1 \<le> i" "i \<le> N - 2"
  shows "SetBoundary_row N b i x =
    Some (put N (put N x i 0 (if b = 2 then - cell N x i 1 else cell N x i 1))
            i (N - 1) (if b = 2 then - cell N x i (N - 2) else cell N x i (N - 2)))"
proof -
  have g: "in_grid N i 1" "in_grid N i 0" "in_grid N i (N - 2)" "in_grid N i (N - 1)"
    using N i by (auto simp: in_grid_def)
  show ?thesis
    using N by (simp add: SetBoundary_row_def rd_cell [OF _ g(1)] rd_cell [OF _ g(3)]
        wr_put [OF _ g(2)] wr_put [OF _ g(4)] x cell_put [OF _ g(2) g(3)])
qed

lemma SetBoundary_col_eq:
  assumes N: "3 \<le> N" and x: "fits N x" and j: "1 \<le> j" "j \<le> N - 2"
  shows "SetBoundary_col N b j x =
    Some (put N (put N x 0 j (if b = 1 then - cell N x 1 j else cell N x 1 j))
            (N - 1) j (if b = 1 then - cell N x 1 j else cell N x (N - 2) j))"
proof -
  have g: "in_grid N 1 j" "in_grid N 0 j" "in_grid N (N - 2) j" "in_grid N (N - 1) j"
    using N j by (auto simp: in_grid_def)
  show ?thesis
    using N by (simp add: SetBoundary_col_def rd_cell [OF _ g(1)] rd_cell [OF _ g(3)]
        wr_put [OF _ g(2)] wr_put [OF _ g(4)] x cell_put [OF _ g(2) g(3)] cell_put [OF _ g(2) g(1)])
qed

lemma SetBoundary_rows:
  assumes N: "3 \<le> N" and x: "fits N x"
  shows "\<exists>y. for_loop [1..N - 2] (SetBoundary_row N b) x = Some y \<and> fits N y \<and>
    (\<forall>i j. in_grid N i j \<longrightarrow> cell N y i j =
       (if 1 \<le> i \<and> i \<le> N - 2 \<and> (j = 0 \<or> j = N - 1) then edge_val N b x i j
        else cell N x i j))"
proof -
  define I where "I m s \<longleftrightarrow> fits N s \<and>
    (\<forall>i j. in_grid N i j \<longrightarrow> cell N s i j =
       (if 1 \<le> i \<and> i < m \<and> (j = 0 \<or> j = N - 1) then edge_val N b x i j
        else cell N x i j))" for m s
  have "\<exists>y. for_loop [1..N - 2] (SetBoundary_row N b) x = Some y \<and> I (N - 2 + 1) y"
  proof (rule for_loop_upto)
    show "1 \<le> N - 2 + 1" using N by simp
    show "I 1 x" using x by (simp add: I_def)
  next
    fix m s assume m: "1 \<le> m" "m \<le> N - 2" and inv: "I m s"
    from inv have s: "fits N s" by (simp add: I_def)
    have g: "in_grid N m 1" "in_grid N m 0" "in_grid N m (N - 2)" "in_grid N m (N - 1)"
      using N m by (auto simp: in_grid_def)
    have r1: "cell N s m 1 = cell N x m 1" and r2: "cell N s m (N - 2) = cell N x m (N - 2)"
      using inv g N by (auto simp: I_def)
    let ?s' = "put N (put N s m 0 (if b = 2 then - cell N x m 1 else cell N x m 1))
            m (N - 1) (if b = 2 then - cell N x m (N - 2) else cell N x m (N - 2))"
    have eq: "SetBoundary_row N b m s = Some ?s'"
      using SetBoundary_row_eq [OF N s m, of b] by (simp add: r1 r2)
    have "I (m + 1) ?s'"
      unfolding I_def
    proof (intro conjI allI impI)
      show "fits N ?s'" using s by simp
    next
      fix i j assume ij: "in_grid N i j"
      have old: "cell N s i j =
       (if 1 \<le> i \<and> i < m \<and> (j = 0 \<or> j = N - 1) then edge_val N b x i j else cell N x i j)"
        using inv ij by (simp add: I_def)
      show "cell N ?s' i j =
        (if 1 \<le> i \<and> i < m + 1 \<and> (j = 0 \<or> j = N - 1) then edge_val N b x i j else cell N x i j)"
        using N m by (auto simp add: cell_put [OF _ g(4) ij] cell_put [OF _ g(2) ij] s old edge_val_def)
    qed
    with eq show "\<exists>s'. SetBoundary_row N b m s = Some s' \<and> I (m + 1) s'" by blast
  qed
  then show ?thesis by (auto simp: I_def)
qed

lemma SetBoundary_cols:
  assumes N: "3 \<le> N" and x: "fits N x"
  shows "\<exists>y. for_loop [1..N - 2] (SetBoundary_col N b) x = Some y \<and> fits N y \<and>
    (\<forall>i j. in_grid N i j \<longrightarrow> cell N y i j =
       (if 1 \<le> j \<and> j \<le> N - 2 \<and> (i = 0 \<or> i = N - 1) then edge_val N b x i j
        else cell N x i j))"
proof -
  define I where "I m s \<longleftrightarrow> fits N s \<and>
    (\<forall>i j. in_grid N i j \<longrightarrow> cell N s i j =
       (if 1 \<le> j \<and> j < m \<and> (i = 0 \<or> i = N - 1) then edge_val N b x i j
        else cell N x i j))" for m s
  have "\<exists>y. for_loop [1..N - 2] (SetBoundary_col N b) x = Some y \<and> I (N - 2 + 1) y"
  proof (rule for_loop_upto)
    show "1 \<le> N - 2 + 1" using N by simp
    show "I 1 x" using x by (simp add: I_def)
  next
    fix m s assume m: "1 \<le> m" "m \<le> N - 2" and inv: "I m s"
    from inv have s: "fits N s" by (simp add: I_def)
    have g: "in_grid N 1 m" "in_grid N 0 m" "in_grid N (N - 2) m" "in_grid N (N - 1) m"
      using N m by (auto simp: in_grid_def)
    have r1: "cell N s 1 m = cell N x 1 m" and r2: "cell N s (N - 2) m = cell N x (N - 2) m"
      using inv g N by (auto simp: I_def)
    let ?s' = "put N (put N s 0 m (if b = 1 then - cell N x 1 m else cell N x 1 m))
            (N - 1) m (if b = 1 then - cell N x 1 m else cell N x (N - 2) m)"
    have eq: "SetBoundary_col N b m s = Some ?s'"
      using SetBoundary_col_eq [OF N s m, of b] by (simp add: r1 r2)
    have "I (m + 1) ?s'"
      unfolding I_def
    proof (intro conjI allI impI)
      show "fits N ?s'" using s by simp
    next
      fix i j assume ij: "in_grid N i j"
      have old: "cell N s i j =
       (if 1 \<le> j \<and> j < m \<and> (i = 0 \<or> i = N - 1) then edge_val N b x i j else cell N x i j)"
        using inv ij by (simp add: I_def)
      show "cell N ?s' i j =
        (if 1 \<le> j \<and> j < m + 1 \<and> (i = 0 \<or> i = N - 1) then edge_val N b x i j else cell N x i j)"
        using N m by (auto simp add: cell_put [OF _ g(4) ij] cell_put [OF _ g(2) ij] s old edge_val_def)
    qed
    with eq show "\<exists>s'. SetBoundary_col N b m s = Some s' \<and> I (m + 1) s'" by blast
  qed
  then show ?thesis by (auto simp: I_def)
qed

lemma SetBoundary_corners_eq:
  assumes N: "3 \<le> N" and x: "fits N x"
  shows "SetBoundary_corners N x =
    Some (put N (put N (put N (put N x 0 0 (0.5 * (cell N x 1 0 + cell N x 0 1)))
        0 (N - 1) (0.5 * (cell N x 1 (N - 1) + cell N x 0 (N - 2))))
        (N - 1) 0 (0.5 * (cell N x (N - 2) 0 + cell N x (N - 1) 1)))
        (N - 1) (N - 1) (0.5 * (cell N x (N - 2) (N - 1) + cell N x (N - 1) (N - 2))))"
proof -
  have c: "in_grid N 0 0" "in_grid N 0 (N - 1)" "in_grid N (N - 1) 0" "in_grid N (N - 1) (N - 1)"
    using N by (auto simp: in_grid_def)
  have e: "in_grid N 1 0" "in_grid N 0 1" "in_grid N 1 (N - 1)" "in_grid N 0 (N - 2)"
    "in_grid N (N - 2) 0" "in_grid N (N - 1) 1" "in_grid N (N - 2) (N - 1)"
    "in_grid N (N - 1) (N - 2)"
    using N by (auto simp: in_grid_def)
  show ?thesis
    using N by (simp add: SetBoundary_corners_def x rd_cell [OF _ e(1)] rd_cell [OF _ e(2)]
        rd_cell [OF _ e(3)] rd_cell [OF _ e(4)] rd_cell [OF _ e(5)] rd_cell [OF _ e(6)]
        rd_cell [OF _ e(7)] rd_cell [OF _ e(8)]
        wr_put [OF _ c(1)] wr_put [OF _ c(2)] wr_put [OF _ c(3)] wr_put [OF _ c(4)]
        cell_put [OF _ c(1) e(3)] cell_put [OF _ c(1) e(4)]
        cell_put [OF _ c(1) e(5)] cell_put [OF _ c(1) e(6)]
        cell_put [OF _ c(1) e(7)] cell_put [OF _ c(1) e(8)]
        cell_put [OF _ c(2) e(5)] cell_put [OF _ c(2) e(6)]
        cell_put [OF _ c(2) e(7)] cell_put [OF _ c(2) e(8)]
        cell_put [OF _ c(3) e(7)] cell_put [OF _ c(3) e(8)])
qed

lemma SetBoundary_corners_cells:
  assumes N: "3 \<le> N" and x: "fits N x"
  shows "\<exists>y. SetBoundary_corners N x = Some y \<and> fits N y \<and>
    (\<forall>i j. in_grid N i j \<longrightarrow> cell N y i j =
      (if i = N - 1 \<and> j = N - 1 then 0.5 * (cell N x (N - 2) (N - 1) + cell N x (N - 1) (N - 2))
       else if i = N - 1 \<and> j = 0 then 0.5 * (cell N x (N - 2) 0 + cell N x (N - 1) 1)
       else if i = 0 \<and> j = N - 1 then 0.5 * (cell N x 1 (N - 1) + cell N x 0 (N - 2))
       else if i = 0 \<and> j = 0 then 0.5 * (cell N x 1 0 + cell N x 0 1)
       else cell N x i j))"
proof -
  have c: "in_grid N 0 0" "in_grid N 0 (N - 1)" "in_grid N (N - 1) 0" "in_grid N (N - 1) (N - 1)"
    using N by (auto simp: in_grid_def)
  show ?thesis
    unfolding SetBoundary_corners_eq [OF N x]
    by (intro exI conjI allI impI, rule refl)
       (simp_all add: cell_put [OF _ c(1)] cell_put [OF _ c(2)] cell_put [OF _ c(3)]
          cell_put [OF _ c(4)] x c)
qed

lemma SetBoundary_cells:
  assumes N: "3 \<le> N" and x: "fits N x"
  shows "\<exists>y. SetBoundary N b x = Some y \<and> fits N y \<and>
    (\<forall>i j. in_grid N i j \<longrightarrow> cell N y i j = bnd_val N b x i j)"
proof -
  from SetBoundary_rows [OF N x, of b] obtain x1 where
    x1: "for_loop [1..N - 2] (SetBoundary_row N b) x = Some x1" "fits N x1"
    and c1: "\<And>i j. in_grid N i j \<Longrightarrow> cell N x1 i j =
       (if 1 \<le> i \<and> i \<le> N - 2 \<and> (j = 0 \<or> j = N - 1) then edge_val N b x i j
        else cell N x i j)" by blast
  from SetBoundary_cols [OF N x1(2), of b] obtain x2 where
    x2: "for_loop [1..N - 2] (SetBoundary_col N b) x1 = Some x2" "fits N x2"
    and c2: "\<And>i j. in_grid N i j \<Longrightarrow> cell N x2 i j =
       (if 1 \<le> j \<and> j \<le> N - 2 \<and> (i = 0 \<or> i = N - 1) then edge_val N b x1 i j
        else cell N x1 i j)" by blast
  from SetBoundary_corners_cells [OF N x2(2)] obtain y where
    y: "SetBoundary_corners N x2 = Some y" "fits N y"
    and c3: "\<And>i j. in_grid N i j \<Longrightarrow> cell N y i j =
      (if i = N - 1 \<and> j = N - 1 then 0.5 * (cell N x2 (N - 2) (N - 1) + cell N x2 (N - 1) (N - 2))
       else if i = N - 1 \<and> j = 0 then 0.5 * (cell N x2 (N - 2) 0 + cell N x2 (N - 1) 1)
       else if i = 0 \<and> j = N - 1 then 0.5 * (cell N x2 1 (N - 1) + cell N x2 0 (N - 2))
       else if i = 0 \<and> j = 0 then 0.5 * (cell N x2 1 0 + cell N x2 0 1)
       else cell N x2 i j)" by blast
  have e12: "edge_val N b x1 i j = edge_val N b x i j"
    if "in_grid N i j" "1 \<le> j" "j \<le> N - 2" for i j
  proof -
    have "in_grid N 1 j" "in_grid N (N - 2) j" using that N by (auto simp: in_grid_def)
    then show ?thesis using that N by (simp add: edge_val_def c1)
  qed
  have c12: "cell N x2 i j = edge_val N b x i j"
    if ij: "in_grid N i j" and "(1 \<le> i \<and> i \<le> N - 2) \<or> (1 \<le> j \<and> j \<le> N - 2)" for i j
  proof (cases "1 \<le> j \<and> j \<le> N - 2")
    case True
    then show ?thesis using ij N by (simp add: c2 c1 e12) (simp add: edge_val_def)
  next
    case False
    with that have "j = 0 \<or> j = N - 1" "1 \<le> i" "i \<le> N - 2" by (auto simp: in_grid_def)
    then show ?thesis using ij N by (auto simp: c2 c1)
  qed
  have e: "in_grid N 1 0" "in_grid N 0 1" "in_grid N 1 (N - 1)" "in_grid N 0 (N - 2)"
    "in_grid N (N - 2) 0" "in_grid N (N - 1) 1" "in_grid N (N - 2) (N - 1)"
    "in_grid N (N - 1) (N - 2)"
    using N by (auto simp: in_grid_def)
  have ev: "cell N x2 1 0 = edge_val N b x 1 0" "cell N x2 0 1 = edge_val N b x 0 1"
    "cell N x2 1 (N - 1) = edge_val N b x 1 (N - 1)" "cell N x2 0 (N - 2) = edge_val N b x 0 (N - 2)"
    "cell N x2 (N - 2) 0 = edge_val N b x (N - 2) 0" "cell N x2 (N - 1) 1 = edge_val N b x (N - 1) 1"
    "cell N x2 (N - 2) (N - 1) = edge_val N b x (N - 2) (N - 1)"
    "cell N x2 (N - 1) (N - 2) = edge_val N b x (N - 1) (N - 2)"
    using N e by (simp_all add: c12)
  have "cell N y i j = bnd_val N b x i j" if ij: "in_grid N i j" for i j
  proof (cases "(1 \<le> i \<and> i \<le> N - 2) \<or> (1 \<le> j \<and> j \<le> N - 2)")
    case True
    then have "cell N y i j = cell N x2 i j" using N by (auto simp: c3 [OF ij])
    moreover have "bnd_val N b x i j = edge_val N b x i j"
      using True N by (auto simp: bnd_val_def)
    ultimately show ?thesis using c12 [OF ij True] by simp
  next
    case False
    then have "(i = 0 \<or> i = N - 1) \<and> (j = 0 \<or> j = N - 1)"
      using ij by (auto simp: in_grid_def)
    then show ?thesis using N unfolding c3 [OF ij] ev bnd_val_def by auto
  qed
  moreover have "SetBoundary N b x = Some y"
    by (simp add: SetBoundary_def x1 x2 y)
  ultimately show ?thesis using y(2) by blast
qed

lemma edge_val_interior_cong:
  assumes N: "3 \<le> N"
    and eq: "\<And>i j. interior N i j \<Longrightarrow> cell N y i j = cell N x i j"
    and ij: "in_grid N i j" and nc: "(1 \<le> i \<and> i \<le> N - 2) \<or> (1 \<le> j \<and> j \<le> N - 2)"
  shows "edge_val N b y i j = edge_val N b x i j"
proof -
  have "j = 0 \<Longrightarrow> interior N i 1" "j = N - 1 \<Longrightarrow> interior N i (N - 2)"
    "i = 0 \<Longrightarrow> interior N 1 j" "i = N - 1 \<Longrightarrow> interior N 1 j \<and> interior N (N - 2) j"
    "j \<noteq> 0 \<Longrightarrow> j \<noteq> N - 1 \<Longrightarrow> i \<noteq> 0 \<Longrightarrow> i \<noteq> N - 1 \<Longrightarrow> interior N i j"
    using N ij nc by (auto simp: interior_def in_grid_def)
  then show ?thesis using N by (auto simp: edge_val_def eq)
qed

lemma bnd_val_interior_cong:
  assumes N: "3 \<le> N"
    and eq: "\<And>i j. interior N i j \<Longrightarrow> cell N y i j = cell N x i j"
    and ij: "in_grid N i j"
  shows "bnd_val N b y i j = bnd_val N b x i j"
proof -
  have e: "in_grid N 1 0" "in_grid N 0 1" "in_grid N 1 (N - 1)" "in_grid N 0 (N - 2)"
    "in_grid N (N - 2) 0" "in_grid N (N - 1) 1" "in_grid N (N - 2) (N - 1)"
    "in_grid N (N - 1) (N - 2)"
    using N by (auto simp: in_grid_def)
  have c: "edge_val N b y 1 0 = edge_val N b x 1 0" "edge_val N b y 0 1 = edge_val N b x 0 1"
    "edge_val N b y 1 (N - 1) = edge_val N b x 1 (N - 1)"
    "edge_val N b y 0 (N - 2) = edge_val N b x 0 (N - 2)"
    "edge_val N b y (N - 2) 0 = edge_val N b x (N - 2) 0"
    "edge_val N b y (N - 1) 1 = edge_val N b x (N - 1) 1"
    "edge_val N b y (N - 2) (N - 1) = edge_val N b x (N - 2) (N - 1)"
    "edge_val N b y (N - 1) (N - 2) = edge_val N b x (N - 1) (N - 2)"
    using N by (simp_all add: edge_val_interior_cong [OF N eq] e)
  show ?thesis
  proof (cases "(1 \<le> i \<and> i \<le> N - 2) \<or> (1 \<le> j \<and> j \<le> N - 2)")
    case True
    then have "bnd_val N b y i j = edge_val N b y i j" "bnd_val N b x i j = edge_val N b x i j"
      using N by (auto simp: bnd_val_def)
    then show ?thesis using edge_val_interior_cong [OF N eq ij True] by simp
  next
    case False
    then have "(i = 0 \<or> i = N - 1) \<and> (j = 0 \<or> j = N - 1)"
      using ij by (auto simp: in_grid_def)
    then show ?thesis using N by (auto simp: bnd_val_def c)
  qed
qed

lemma bnd_val_interior:
  assumes "interior N i j"
  shows "bnd_val N b x i j = cell N x i j"
  using assms by (auto simp: bnd_val_def edge_val_def interior_def)



text \<open>
  C8: after \<open>SetBoundary\<close> on a grid of side at least 3, whatever the field kind, each
  of the four corner cells holds half the sum of its two neighbours on the boundary ring.
\<close>

theorem SetBoundary_corner_average:
  assumes "3 \<le> N" and "fits N x"
  shows "\<exists>y. SetBoundary N b x = Some y \<and>
    cell N y 0 0 = 0.5 * (cell N y 1 0 + cell N y 0 1) \<and>
    cell N y 0 (N - 1) = 0.5 * (cell N y 1 (N - 1) + cell N y 0 (N - 2)) \<and>
    cell N y (N - 1) 0 = 0.5 * (cell N y (N - 2) 0 + cell N y (N - 1) 1) \<and>
    cell N y (N - 1) (N - 1) = 0.5 * (cell N y (N - 2) (N - 1) + cell N y (N - 1) (N - 2))"
proof -
  from SetBoundary_cells [OF assms, of b] obtain y where
    y: "SetBoundary N b x = Some y"
    and c: "\<And>i j. in_grid N i j \<Longrightarrow> cell N y i j = bnd_val N b x i j" by blast
  have g: "in_grid N 0 0" "in_grid N 0 (N - 1)" "in_grid N (N - 1) 0" "in_grid N (N - 1) (N - 1)"
    "in_grid N 1 0" "in_grid N 0 1" "in_grid N 1 (N - 1)" "in_grid N 0 (N - 2)"
    "in_grid N (N - 2) 0" "in_grid N (N - 1) 1" "in_grid N (N - 2) (N - 1)"
    "in_grid N (N - 1) (N - 2)"
    using assms(1) by (auto simp: in_grid_def)
  have "cell N y 0 0 = 0.5 * (cell N y 1 0 + cell N y 0 1)"
    using assms(1) by (simp add: c g bnd_val_def)
  moreover have "cell N y 0 (N - 1) = 0.5 * (cell N y 1 (N - 1) + cell N y 0 (N - 2))"
    using assms(1) by (simp add: c g bnd_val_def)
  moreover have "cell N y (N - 1) 0 = 0.5 * (cell N y (N - 2) 0 + cell N y (N - 1) 1)"
    using assms(1) by (simp add: c g bnd_val_def)
  moreover have "cell N y (N - 1) (N - 1) =
      0.5 * (cell N y (N - 2) (N - 1) + cell N y (N - 1) (N - 2))"
    using assms(1) by (simp add: c g bnd_val_def)
  ultimately show ?thesis using y by blast
qed

theorem SetBoundary_corner_average_witness:
  "(3::int) \<le> 3 \<and> fits 3 [1, 2, 3, 4, 5, 6, 7, 8, 9] \<and>
   (\<exists>y. SetBoundary 3 2 [1, 2, 3, 4, 5, 6, 7, 8, 9] = Some y \<and>
    cell 3 y 0 0 = 0.5 * (cell 3 y 1 0 + cell 3 y 0 1) \<and>
    cell 3 y 0 (3 - 1) = 0.5 * (cell 3 y 1 (3 - 1) + cell 3 y 0 (3 - 2)) \<and>
    cell 3 y (3 - 1) 0 = 0.5 * (cell 3 y (3 - 2) 0 + cell 3 y (3 - 1) 1) \<and>
    cell 3 y (3 - 1) (3 - 1) = 0.5 * (cell 3 y (3 - 2) (3 - 1) + cell 3 y (3 - 1) (3 - 2)))"
proof -
  have h: "(3::int) \<le> 3" "fits 3 [1, 2, 3, 4, 5, 6, 7, 8, 9]" by (simp_all add: fits_def)
  show ?thesis using h SetBoundary_corner_average [OF h, of 2] by blast
qed

text \<open>
  C10: on a grid of side at least 3, \<open>SetBoundary\<close> applied to its own result returns
  that result again, whatever the field kind.
\<close>

theorem SetBoundary_idempotent:
  assumes "3 \<le> N" and "fits N x"
  shows "\<exists>y. SetBoundary N b x = Some y \<and> SetBoundary N b y = Some y"
proof -
  from SetBoundary_cells [OF assms, of b] obtain y where
    y: "SetBoundary N b x = Some y" "fits N y"
    and c: "\<And>i j. in_grid N i j \<Longrightarrow> cell N y i j = bnd_val N b x i j" by blast
  from SetBoundary_cells [OF assms(1) y(2), of b] obtain z where
    z: "SetBoundary N b y = Some z" "fits N z"
    and d: "\<And>i j. in_grid N i j \<Longrightarrow> cell N z i j = bnd_val N b y i j" by blast
  have keep: "cell N y i j = cell N x i j" if "interior N i j" for i j
    using that by (simp add: c interior_in_grid bnd_val_interior)
  have "z = y"
  proof (rule field_eqI [of N])
    show "0 < N" using assms(1) by simp
    show "fits N z" "fits N y" by (rule z y)+
    fix i j assume ij: "in_grid N i j"
    show "cell N z i j = cell N y i j"
      by (simp add: d ij c bnd_val_interior_cong [OF assms(1) keep ij])
  qed
  with y z show ?thesis by simp
qed

theorem SetBoundary_idempotent_witness:
  "(3::int) \<le> 3 \<and> fits 3 [1, 2, 3, 4, 5, 6, 7, 8, 9] \<and>
   (\<exists>y. SetBoundary 3 1 [1, 2, 3, 4, 5, 6, 7, 8, 9] = Some y \<and> SetBoundary 3 1 y = Some y)"
proof -
  have h: "(3::int) \<le> 3" "fits 3 [1, 2, 3, 4, 5, 6, 7, 8, 9]" by (simp_all add: fits_def)
  show ?thesis using h SetBoundary_idempotent [OF h, of 1] by blast
qed

lemma SetBoundary_side_edges:
  assumes "3 \<le> N" and "fits N x" and "1 \<le> j" and "j \<le> N - 2"
  shows "\<exists>y. SetBoundary N b x = Some y \<and>
    cell N y 0 j = (if b = 1 then - cell N y 1 j else cell N y 1 j) \<and>
    cell N y (N - 1) j = (if b = 1 then - cell N y 1 j else cell N y (N - 2) j)"
proof -
  from SetBoundary_cells [OF assms(1,2), of b] obtain y where
    y: "SetBoundary N b x = Some y"
    and c: "\<And>i j. in_grid N i j \<Longrightarrow> cell N y i j = bnd_val N b x i j" by blast
  have g: "in_grid N 0 j" "in_grid N 1 j" "in_grid N (N - 2) j" "in_grid N (N - 1) j"
    using assms by (auto simp: in_grid_def)
  have "cell N y 0 j = (if b = 1 then - cell N y 1 j else cell N y 1 j)"
    using assms by (simp add: c g bnd_val_def edge_val_def)
  moreover have "cell N y (N - 1) j = (if b = 1 then - cell N y 1 j else cell N y (N - 2) j)"
    using assms by (simp add: c g bnd_val_def edge_val_def)
  ultimately show ?thesis using y by blast
qed

text \<open>
  C3: after \<open>SetBoundary\<close> with kind 1 the claim wants \<open>field[N-1,j] = - field[N-2,j]\<close>
  on the right edge. On the 4 by 4 field below, whose interior is \<open>1 2 / 3 4\<close>, the right
  edge cells \<open>(3,1)\<close> and \<open>(3,2)\<close> come out as \<open>- 1\<close> and \<open>- 3\<close>, the negated column 1,
  while the negated column \<open>N - 2 = 2\<close> is \<open>- 2\<close> and \<open>- 4\<close>.
\<close>

theorem SetBoundary_right_edge_kind_1:
  "SetBoundary 4 1 [0, 0, 0, 0,  0, 1, 2, 0,  0, 3, 4, 0,  0, 0, 0, 0] =
     Some [0, 1, 2, 1 / 2,  - 1, 1, 2, - 1,  - 3, 3, 4, - 3,  0, 3, 4, 1 / 2]"
  by (simp add: rd_def wr_def IX_def SetBoundary_def SetBoundary_row_def SetBoundary_col_def
      SetBoundary_corners_def upto_rec1)

section \<open>\<open>LinearSolve\<close> and \<open>Diffuse\<close>\<close>

lemma LinearSolve_cell_eq:
  assumes x0: "fits N x0" and s: "fits N s" and ij: "interior N i j"
  shows "LinearSolve_cell N x0 a r j i s =
    Some (put N s i j ((cell N x0 i j +
        a * (cell N s (i + 1) j + cell N s (i - 1) j + cell N s i (j + 1) + cell N s i (j - 1))) * r))"
  by (simp add: LinearSolve_cell_def rd_cell [OF x0] rd_cell [OF s] wr_put [OF s]
      interior_in_grid [OF ij] interior_neighbours [OF ij])

lemma LinearSolve_sweep_cells:
  assumes N: "3 \<le> N" and x0: "fits N x0" and x: "fits N x"
  shows "\<exists>y. LinearSolve_sweep N x0 a r x = Some y \<and> fits N y \<and>
    (\<forall>i j. in_grid N i j \<longrightarrow> cell N y i j =
        (if interior N i j
         then (cell N x0 i j +
               a * (cell N x (i + 1) j + cell N y (i - 1) j +
                    cell N x i (j + 1) + cell N y i (j - 1))) * r
         else cell N x i j))"
proof -
  define I where "I j i s \<longleftrightarrow> fits N s \<and>
    (\<forall>i' j'. in_grid N i' j' \<longrightarrow> cell N s i' j' =
        (if swept N j i i' j'
         then (cell N x0 i' j' +
               a * (cell N x (i' + 1) j' + cell N s (i' - 1) j' +
                    cell N x i' (j' + 1) + cell N s i' (j' - 1))) * r
         else cell N x i' j'))" for j i s
  have "\<exists>y. for_loop [1..N - 2] (\<lambda>j. for_loop [1..N - 2] (LinearSolve_cell N x0 a r j)) x = Some y \<and>
          I (N - 1) 1 y"
  proof (rule grid_loop [OF N])
    show "I 1 1 x" using x by (simp add: I_def)
  next
    fix j s assume "I j (N - 1) s"
    then show "I (j + 1) 1 s" by (simp add: I_def swept_row_end)
  next
    fix i j s assume ij: "interior N i j" and inv: "I j i s"
    from inv have s: "fits N s" by (simp add: I_def)
    note g = interior_in_grid [OF ij] and nb = interior_neighbours [OF ij]
    have old: "cell N s i' j' =
        (if swept N j i i' j'
         then (cell N x0 i' j' +
               a * (cell N x (i' + 1) j' + cell N s (i' - 1) j' +
                    cell N x i' (j' + 1) + cell N s i' (j' - 1))) * r
         else cell N x i' j')" if "in_grid N i' j'" for i' j'
      using inv that by (simp add: I_def)
    have e: "cell N s (i + 1) j = cell N x (i + 1) j" "cell N s i (j + 1) = cell N x i (j + 1)"
      by (simp_all add: old nb swept_def)
    define v where "v = (cell N x0 i j +
        a * (cell N s (i + 1) j + cell N s (i - 1) j + cell N s i (j + 1) + cell N s i (j - 1))) * r"
    have v: "v = (cell N x0 i j +
        a * (cell N x (i + 1) j + cell N s (i - 1) j + cell N x i (j + 1) + cell N s i (j - 1))) * r"
      by (simp add: v_def e)
    let ?s' = "put N s i j v"
    have new: "cell N ?s' i' j' = (if i' = i \<and> j' = j then v else cell N s i' j')"
      if "in_grid N i' j'" for i' j'
      by (rule cell_put [OF s g that])
    have "I j (i + 1) ?s'"
      unfolding I_def
    proof (intro conjI allI impI)
      show "fits N ?s'" using s by simp
    next
      fix i' j' assume g': "in_grid N i' j'"
      show "cell N ?s' i' j' =
        (if swept N j (i + 1) i' j'
         then (cell N x0 i' j' +
               a * (cell N x (i' + 1) j' + cell N ?s' (i' - 1) j' +
                    cell N x i' (j' + 1) + cell N ?s' i' (j' - 1))) * r
         else cell N x i' j')"
      proof (cases "i' = i \<and> j' = j")
        case True
        have "cell N ?s' i j = v" by (simp add: new g)
        moreover have "cell N ?s' (i - 1) j = cell N s (i - 1) j" by (simp add: new nb)
        moreover have "cell N ?s' i (j - 1) = cell N s i (j - 1)" by (simp add: new nb)
        moreover have "swept N j (i + 1) i j" by (simp add: swept_next [OF ij])
        ultimately show ?thesis using True v by simp
      next
        case False
        have c0: "cell N ?s' i' j' = cell N s i' j'" using False new [OF g'] by auto
        show ?thesis
        proof (cases "swept N j i i' j'")
          case sw: True
          then have int': "interior N i' j'" by (simp add: swept_def)
          note nb' = interior_neighbours [OF int']
          have "\<not> (i' - 1 = i \<and> j' = j)" "\<not> (i' = i \<and> j' - 1 = j)"
            using sw by (auto simp: swept_def)
          then have c1: "cell N ?s' (i' - 1) j' = cell N s (i' - 1) j'"
            and c2: "cell N ?s' i' (j' - 1) = cell N s i' (j' - 1)"
            using new [OF nb'(2)] new [OF nb'(4)] by auto
          have "swept N j (i + 1) i' j'" using sw by (simp add: swept_next [OF ij])
          then show ?thesis unfolding c0 c1 c2 using sw old [OF g'] by simp
        next
          case nsw: False
          then have "\<not> swept N j (i + 1) i' j'" using False by (simp add: swept_next [OF ij])
          then show ?thesis unfolding c0 using nsw old [OF g'] by simp
        qed
      qed
    qed
    then show "\<exists>s'. LinearSolve_cell N x0 a r j i s = Some s' \<and> I j (i + 1) s'"
      by (simp add: LinearSolve_cell_eq [OF x0 s ij] v_def)
  qed
  then show ?thesis by (auto simp: I_def swept_end LinearSolve_sweep_def)
qed

lemma LinearSolve_sweep_gs:
  assumes N: "3 \<le> N" and x0: "fits N x0" and x: "fits N x"
  shows "\<exists>y. LinearSolve_sweep N x0 a (1 / c) x = Some y \<and> fits N y \<and> gs_sweep N x0 a c x y"
  using LinearSolve_sweep_cells [OF assms, of a "1 / c"] by (auto simp: gs_sweep_def)

lemma gs_sweep_unique:
  assumes N: "0 < N" and y: "gs_sweep N x0 a c x y" and z: "gs_sweep N x0 a c x z"
  shows "y = z"
proof (rule field_eqI [OF N])
  show "fits N y" "fits N z" using y z by (simp_all add: gs_sweep_def)
  have cy: "cell N y i j = (if interior N i j
         then (cell N x0 i j + a * (cell N x (i + 1) j + cell N y (i - 1) j +
                    cell N x i (j + 1) + cell N y i (j - 1))) / c
         else cell N x i j)" if "in_grid N i j" for i j
    using y that by (simp add: gs_sweep_def)
  have cz: "cell N z i j = (if interior N i j
         then (cell N x0 i j + a * (cell N x (i + 1) j + cell N z (i - 1) j +
                    cell N x i (j + 1) + cell N z i (j - 1))) / c
         else cell N x i j)" if "in_grid N i j" for i j
    using z that by (simp add: gs_sweep_def)
  show "cell N y i j = cell N z i j" if "in_grid N i j" for i j
    using that
  proof (induction "nat (IX N i j)" arbitrary: i j rule: less_induct)
    case less
    show ?case
    proof (cases "interior N i j")
      case True
      note nb = interior_neighbours [OF True]
      have "nat (IX N (i - 1) j) < nat (IX N i j)" "nat (IX N i (j - 1)) < nat (IX N i j)"
        using IX_bounds(1) [OF nb(2)] IX_bounds(1) [OF nb(4)] N
        by (simp_all add: IX_def algebra_simps)
      then have "cell N y (i - 1) j = cell N z (i - 1) j" "cell N y i (j - 1) = cell N z i (j - 1)"
        using less.hyps nb by blast+
      then show ?thesis using True by (simp add: cy [OF less.prems] cz [OF less.prems])
    next
      case False
      then show ?thesis by (simp add: cy [OF less.prems] cz [OF less.prems])
    qed
  qed
qed

lemma LinearSolve_rounds:
  assumes N: "3 \<le> N" and x0: "fits N x0"
  shows "fits N x \<Longrightarrow> 0 \<le> k \<Longrightarrow> k \<le> N \<Longrightarrow>
    \<exists>y. for_loop [k..N - 1]
           (\<lambda>t x. do { x \<leftarrow> LinearSolve_sweep N x0 a (1 / c) x; SetBoundary N b x }) x = Some y \<and>
         fits N y \<and> gs_rounds (nat (N - k)) N b x0 a c x y"
proof (induction "nat (N - k)" arbitrary: k x)
  case 0
  then have "k = N" by simp
  with 0 show ?case by simp
next
  case (Suc n)
  then have kN: "k \<le> N - 1" by linarith
  from LinearSolve_sweep_gs [OF N x0 Suc.prems(1), of a c] obtain x' where
    x': "LinearSolve_sweep N x0 a (1 / c) x = Some x'" "fits N x'" "gs_sweep N x0 a c x x'"
    by blast
  from SetBoundary_cells [OF N x'(2), of b] obtain x'' where
    x'': "SetBoundary N b x' = Some x''" "fits N x''" by blast
  have "\<exists>y. for_loop [k + 1..N - 1]
           (\<lambda>t x. do { x \<leftarrow> LinearSolve_sweep N x0 a (1 / c) x; SetBoundary N b x }) x'' = Some y \<and>
         fits N y \<and> gs_rounds (nat (N - (k + 1))) N b x0 a c x'' y"
  proof (rule Suc.hyps(1))
    show "n = nat (N - (k + 1))" using Suc.hyps(2) by linarith
    show "fits N x''" by (rule x'')
    show "0 \<le> k + 1" using Suc.prems(2) by simp
    show "k + 1 \<le> N" using kN by simp
  qed
  then obtain y where
    y: "for_loop [k + 1..N - 1]
           (\<lambda>t x. do { x \<leftarrow> LinearSolve_sweep N x0 a (1 / c) x; SetBoundary N b x }) x'' = Some y"
      "fits N y" "gs_rounds (nat (N - (k + 1))) N b x0 a c x'' y" by blast
  have n: "nat (N - k) = Suc (nat (N - (k + 1)))" using kN by simp
  have "gs_rounds (nat (N - k)) N b x0 a c x y"
    unfolding n using x'(3) x''(1) y(3) by auto
  then show ?case using y(1,2) x'(1) x''(1) kN by (simp add: upto_rec1 [of k "N - 1"])
qed

lemma LinearSolve_total:
  assumes "3 \<le> N" and "fits N x" and "fits N x0"
  shows "\<exists>y. LinearSolve N b x x0 a c = Some y \<and> fits N y"
  using LinearSolve_rounds [OF assms(1,3,2), of 0 a c b] assms(1)
  by (auto simp: LinearSolve_def Let_def)


text \<open>
  C4: \<open>LinearSolve\<close> runs exactly \<open>N\<close> rounds, each one full in-place Gauss-Seidel sweep
  of the interior, \<open>x[i,j] = (x0[i,j] + a * (x[i+1,j] + x[i-1,j] + x[i,j+1] + x[i,j-1])) / c\<close>
  with the neighbours already visited in this sweep taken at their new content, followed
  by one \<open>SetBoundary\<close> of kind \<open>b\<close>; the count does not depend on the data.
\<close>

theorem LinearSolve_rounds_of_sweeps:
  assumes "3 \<le> N" and "fits N x" and "fits N x0"
  shows "\<exists>y. LinearSolve N b x x0 a c = Some y \<and> gs_rounds (nat N) N b x0 a c x y"
  using LinearSolve_rounds [OF assms(1,3,2), of 0 a c b] assms(1)
  by (auto simp: LinearSolve_def Let_def)

theorem LinearSolve_rounds_of_sweeps_witness:
  "(3::int) \<le> 3 \<and> fits 3 [1, 2, 3, 4, 5, 6, 7, 8, 9] \<and> fits 3 [0, 0, 0, 0, 1, 0, 0, 0, 0] \<and>
   (\<exists>y. LinearSolve 3 1 [1, 2, 3, 4, 5, 6, 7, 8, 9] [0, 0, 0, 0, 1, 0, 0, 0, 0] 10.1 41.4 = Some y \<and>
      gs_rounds (nat 3) 3 1 [0, 0, 0, 0, 1, 0, 0, 0, 0] 10.1 41.4 [1, 2, 3, 4, 5, 6, 7, 8, 9] y)"
proof -
  have h: "(3::int) \<le> 3" "fits 3 [1, 2, 3, 4, 5, 6, 7, 8, 9]" "fits 3 [0, 0, 0, 0, 1, 0, 0, 0, 0]"
    by (simp_all add: fits_def)
  show ?thesis using h LinearSolve_rounds_of_sweeps [OF h, of 1 "10.1" "41.4"] by blast
qed

text \<open>
  C9: \<open>Diffuse\<close> is \<open>LinearSolve\<close> on the same kind and fields with \<open>a = dt * diff * (N-2)^2\<close>
  and \<open>c = 1 + 4 * a\<close>; its result is the result of that call, nothing else is written.
\<close>

theorem Diffuse_is_LinearSolve:
  "Diffuse N b x x0 diff dt =
     LinearSolve N b x x0 (dt * diff * (of_int (N - 2))\<^sup>2) (1 + 4 * (dt * diff * (of_int (N - 2))\<^sup>2))"
  by (simp add: Diffuse_def Let_def power2_eq_square mult.assoc)

section \<open>\<open>Project\<close>\<close>

lemma Project_div_eq:
  assumes vx: "fits N velocX" and vy: "fits N velocY" and p: "fits N p" and dv: "fits N dv"
    and ij: "interior N i j"
  shows "Project_div N velocX velocY j i (p, dv) =
    Some (put N p i j 0,
          put N dv i j ((- 0.5 * (cell N velocX (i + 1) j - cell N velocX (i - 1) j +
                                  cell N velocY i (j + 1) - cell N velocY i (j - 1))) / of_int N))"
  by (simp add: Project_div_def rd_cell [OF vx] rd_cell [OF vy] wr_put [OF p] wr_put [OF dv]
      interior_in_grid [OF ij] interior_neighbours [OF ij])

lemma Project_div_loop:
  assumes N: "3 \<le> N" and vx: "fits N velocX" and vy: "fits N velocY"
    and p: "fits N p" and dv: "fits N dv"
  shows "\<exists>p1 dv1. for_loop [1..N - 2] (\<lambda>j. for_loop [1..N - 2] (Project_div N velocX velocY j))
            (p, dv) = Some (p1, dv1) \<and>
     interior_map N (\<lambda>i j. 0) p p1 \<and>
     interior_map N (\<lambda>i j. (- 0.5 * (cell N velocX (i + 1) j - cell N velocX (i - 1) j +
                   cell N velocY i (j + 1) - cell N velocY i (j - 1))) / of_int N) dv dv1"
proof -
  define g where "g = (\<lambda>i j. (- 0.5 * (cell N velocX (i + 1) j - cell N velocX (i - 1) j +
                   cell N velocY i (j + 1) - cell N velocY i (j - 1))) / of_int N)"
  define I where "I j i s \<longleftrightarrow>
    partial_map N j i (\<lambda>i j. 0) p (fst s) \<and> partial_map N j i g dv (snd s)" for j i s
  have "\<exists>s. for_loop [1..N - 2] (\<lambda>j. for_loop [1..N - 2] (Project_div N velocX velocY j))
            (p, dv) = Some s \<and> I (N - 1) 1 s"
  proof (rule grid_loop [OF N])
    show "I 1 1 (p, dv)" using p dv by (simp add: I_def partial_map_start)
  next
    fix j s assume "I j (N - 1) s"
    then show "I (j + 1) 1 s" by (simp add: I_def partial_map_row)
  next
    fix i j s assume ij: "interior N i j" and inv: "I j i s"
    obtain p' dv' where s: "s = (p', dv')" by (cases s)
    from inv have pm: "partial_map N j i (\<lambda>i j. 0) p p'" "partial_map N j i g dv dv'"
      by (simp_all add: I_def s)
    have "I j (i + 1) (put N p' i j 0, put N dv' i j (g i j))"
      using partial_map_step [OF pm(1) ij] partial_map_step [OF pm(2) ij] by (simp add: I_def)
    then show "\<exists>s'. Project_div N velocX velocY j i s = Some s' \<and> I j (i + 1) s'"
      unfolding s Project_div_eq [OF vx vy partial_map_fits [OF pm(1)] partial_map_fits [OF pm(2)] ij]
      by (simp add: g_def)
  qed
  then show ?thesis unfolding I_def partial_map_end g_def by auto
qed

lemma Project_grad_eq:
  assumes p: "fits N p" and vx: "fits N velocX" and vy: "fits N velocY" and ij: "interior N i j"
  shows "Project_grad N p j i (velocX, velocY) =
    Some (put N velocX i j
            (cell N velocX i j - 0.5 * (cell N p (i + 1) j - cell N p (i - 1) j) * of_int N),
          put N velocY i j
            (cell N velocY i j - 0.5 * (cell N p i (j + 1) - cell N p i (j - 1)) * of_int N))"
  by (simp add: Project_grad_def rd_cell [OF vx] rd_cell [OF vy] rd_cell [OF p]
      wr_put [OF vx] wr_put [OF vy] interior_in_grid [OF ij] interior_neighbours [OF ij])

lemma Project_grad_loop:
  assumes N: "3 \<le> N" and p: "fits N p" and vx: "fits N velocX" and vy: "fits N velocY"
  shows "\<exists>vx1 vy1. for_loop [1..N - 2] (\<lambda>j. for_loop [1..N - 2] (Project_grad N p j))
            (velocX, velocY) = Some (vx1, vy1) \<and>
     interior_map N (\<lambda>i j. cell N velocX i j -
         0.5 * (cell N p (i + 1) j - cell N p (i - 1) j) * of_int N) velocX vx1 \<and>
     interior_map N (\<lambda>i j. cell N velocY i j -
         0.5 * (cell N p i (j + 1) - cell N p i (j - 1)) * of_int N) velocY vy1"
proof -
  define gx where "gx = (\<lambda>i j. cell N velocX i j -
         0.5 * (cell N p (i + 1) j - cell N p (i - 1) j) * of_int N)"
  define gy where "gy = (\<lambda>i j. cell N velocY i j -
         0.5 * (cell N p i (j + 1) - cell N p i (j - 1)) * of_int N)"
  define I where "I j i s \<longleftrightarrow>
    partial_map N j i gx velocX (fst s) \<and> partial_map N j i gy velocY (snd s)" for j i s
  have "\<exists>s. for_loop [1..N - 2] (\<lambda>j. for_loop [1..N - 2] (Project_grad N p j))
            (velocX, velocY) = Some s \<and> I (N - 1) 1 s"
  proof (rule grid_loop [OF N])
    show "I 1 1 (velocX, velocY)" using vx vy by (simp add: I_def partial_map_start)
  next
    fix j s assume "I j (N - 1) s"
    then show "I (j + 1) 1 s" by (simp add: I_def partial_map_row)
  next
    fix i j s assume ij: "interior N i j" and inv: "I j i s"
    obtain vx' vy' where s: "s = (vx', vy')" by (cases s)
    from inv have pm: "partial_map N j i gx velocX vx'" "partial_map N j i gy velocY vy'"
      by (simp_all add: I_def s)
    have "I j (i + 1) (put N vx' i j (gx i j), put N vy' i j (gy i j))"
      using partial_map_step [OF pm(1) ij] partial_map_step [OF pm(2) ij] by (simp add: I_def)
    then show "\<exists>s'. Project_grad N p j i s = Some s' \<and> I j (i + 1) s'"
      unfolding s Project_grad_eq [OF p partial_map_fits [OF pm(1)] partial_map_fits [OF pm(2)] ij]
        partial_map_here [OF pm(1) ij] partial_map_here [OF pm(2) ij]
      by (simp add: gx_def gy_def)
  qed
  then show ?thesis unfolding I_def partial_map_end gx_def gy_def by auto
qed


text \<open>
  C5: \<open>Project\<close> fills the interior of \<open>div\<close> with
  \<open>- 0.5 * (Vx[i+1,j] - Vx[i-1,j] + Vy[i,j+1] - Vy[i,j-1]) / N\<close> and the interior of \<open>p\<close>
  with 0, applies \<open>SetBoundary\<close> of kind 0 to \<open>div\<close> and to \<open>p\<close>, runs \<open>LinearSolve\<close> of
  kind 0 on \<open>(p, div)\<close> with \<open>a = 1\<close>, \<open>c = 6\<close>, subtracts \<open>0.5 * (p[i+1,j] - p[i-1,j]) * N\<close>
  from every interior cell of \<open>Vx\<close> and \<open>0.5 * (p[i,j+1] - p[i,j-1]) * N\<close> from every
  interior cell of \<open>Vy\<close>, and ends with \<open>SetBoundary\<close> of kind 1 on \<open>Vx\<close> and of kind 2
  on \<open>Vy\<close>.
\<close>

theorem Project_steps:
  assumes "3 \<le> N" and "fits N velocX" and "fits N velocY" and "fits N p" and "fits N dv"
  shows "\<exists>dv1 p1 dv2 p2 p3 vx1 vy1 vx2 vy2.
    interior_map N (\<lambda>i j. (- 0.5 * (cell N velocX (i + 1) j - cell N velocX (i - 1) j +
                   cell N velocY i (j + 1) - cell N velocY i (j - 1))) / of_int N) dv dv1 \<and>
    interior_map N (\<lambda>i j. 0) p p1 \<and>
    SetBoundary N 0 dv1 = Some dv2 \<and>
    SetBoundary N 0 p1 = Some p2 \<and>
    LinearSolve N 0 p2 dv2 1 6 = Some p3 \<and>
    interior_map N (\<lambda>i j. cell N velocX i j -
         0.5 * (cell N p3 (i + 1) j - cell N p3 (i - 1) j) * of_int N) velocX vx1 \<and>
    interior_map N (\<lambda>i j. cell N velocY i j -
         0.5 * (cell N p3 i (j + 1) - cell N p3 i (j - 1)) * of_int N) velocY vy1 \<and>
    SetBoundary N 1 vx1 = Some vx2 \<and>
    SetBoundary N 2 vy1 = Some vy2 \<and>
    Project N velocX velocY p dv = Some (vx2, vy2, p3, dv2)"
proof -
  note N = assms(1)
  from Project_div_loop [OF assms] obtain p1 dv1 where
    l1: "for_loop [1..N - 2] (\<lambda>j. for_loop [1..N - 2] (Project_div N velocX velocY j))
            (p, dv) = Some (p1, dv1)"
    and p1: "interior_map N (\<lambda>i j. 0) p p1"
    and dv1: "interior_map N (\<lambda>i j. (- 0.5 * (cell N velocX (i + 1) j - cell N velocX (i - 1) j +
                   cell N velocY i (j + 1) - cell N velocY i (j - 1))) / of_int N) dv dv1"
    by blast
  from SetBoundary_cells [OF N interior_map_fits [OF dv1], of 0] obtain dv2 where
    dv2: "SetBoundary N 0 dv1 = Some dv2" "fits N dv2" by blast
  from SetBoundary_cells [OF N interior_map_fits [OF p1], of 0] obtain p2 where
    p2: "SetBoundary N 0 p1 = Some p2" "fits N p2" by blast
  from LinearSolve_total [OF N p2(2) dv2(2), of 0 1 6] obtain p3 where
    p3: "LinearSolve N 0 p2 dv2 1 6 = Some p3" "fits N p3" by blast
  from Project_grad_loop [OF N p3(2) assms(2,3)] obtain vx1 vy1 where
    l2: "for_loop [1..N - 2] (\<lambda>j. for_loop [1..N - 2] (Project_grad N p3 j))
            (velocX, velocY) = Some (vx1, vy1)"
    and vx1: "interior_map N (\<lambda>i j. cell N velocX i j -
         0.5 * (cell N p3 (i + 1) j - cell N p3 (i - 1) j) * of_int N) velocX vx1"
    and vy1: "interior_map N (\<lambda>i j. cell N velocY i j -
         0.5 * (cell N p3 i (j + 1) - cell N p3 i (j - 1)) * of_int N) velocY vy1"
    by blast
  from SetBoundary_cells [OF N interior_map_fits [OF vx1], of 1] obtain vx2 where
    vx2: "SetBoundary N 1 vx1 = Some vx2" by blast
  from SetBoundary_cells [OF N interior_map_fits [OF vy1], of 2] obtain vy2 where
    vy2: "SetBoundary N 2 vy1 = Some vy2" by blast
  have "Project N velocX velocY p dv = Some (vx2, vy2, p3, dv2)"
    by (simp add: Project_def l1 dv2 p2 p3 l2 vx2 vy2)
  with dv1 p1 dv2(1) p2(1) p3(1) vx1 vy1 vx2 vy2 show ?thesis by blast
qed

theorem Project_steps_witness:
  "(3::int) \<le> 3 \<and> fits 3 [0, 0, 0, 0, 1, 0, 0, 0, 0] \<and> fits 3 [0, 0, 0, 0, 2, 0, 0, 0, 0] \<and>
   fits 3 [1, 2, 3, 4, 5, 6, 7, 8, 9] \<and> fits 3 [9, 8, 7, 6, 5, 4, 3, 2, 1] \<and>
   (\<exists>dv1 p1 dv2 p2 p3 vx1 vy1 vx2 vy2.
    interior_map 3 (\<lambda>i j. (- 0.5 * (cell 3 [0, 0, 0, 0, 1, 0, 0, 0, 0] (i + 1) j -
                   cell 3 [0, 0, 0, 0, 1, 0, 0, 0, 0] (i - 1) j +
                   cell 3 [0, 0, 0, 0, 2, 0, 0, 0, 0] i (j + 1) -
                   cell 3 [0, 0, 0, 0, 2, 0, 0, 0, 0] i (j - 1))) / of_int 3)
       [9, 8, 7, 6, 5, 4, 3, 2, 1] dv1 \<and>
    interior_map 3 (\<lambda>i j. 0) [1, 2, 3, 4, 5, 6, 7, 8, 9] p1 \<and>
    SetBoundary 3 0 dv1 = Some dv2 \<and>
    SetBoundary 3 0 p1 = Some p2 \<and>
    LinearSolve 3 0 p2 dv2 1 6 = Some p3 \<and>
    interior_map 3 (\<lambda>i j. cell 3 [0, 0, 0, 0, 1, 0, 0, 0, 0] i j -
         0.5 * (cell 3 p3 (i + 1) j - cell 3 p3 (i - 1) j) * of_int 3)
       [0, 0, 0, 0, 1, 0, 0, 0, 0] vx1 \<and>
    interior_map 3 (\<lambda>i j. cell 3 [0, 0, 0, 0, 2, 0, 0, 0, 0] i j -
         0.5 * (cell 3 p3 i (j + 1) - cell 3 p3 i (j - 1)) * of_int 3)
       [0, 0, 0, 0, 2, 0, 0, 0, 0] vy1 \<and>
    SetBoundary 3 1 vx1 = Some vx2 \<and>
    SetBoundary 3 2 vy1 = Some vy2 \<and>
    Project 3 [0, 0, 0, 0, 1, 0, 0, 0, 0] [0, 0, 0, 0, 2, 0, 0, 0, 0]
       [1, 2, 3, 4, 5, 6, 7, 8, 9] [9, 8, 7, 6, 5, 4, 3, 2, 1] = Some (vx2, vy2, p3, dv2))"
proof -
  have h: "(3::int) \<le> 3" "fits 3 [0, 0, 0, 0, 1, 0, 0, 0, 0]" "fits 3 [0, 0, 0, 0, 2, 0, 0, 0, 0]"
    "fits 3 [1, 2, 3, 4, 5, 6, 7, 8, 9]" "fits 3 [9, 8, 7, 6, 5, 4, 3, 2, 1]"
    by (simp_all add: fits_def)
  show ?thesis using h Project_steps [OF h] by blast
qed

section \<open>\<open>Advect\<close>\<close>

lemma Clamp_bounds:
  assumes "lo \<le> hi"
  shows "lo \<le> Clamp v lo hi" and "Clamp v lo hi \<le> hi"
  using assms by (auto simp: Clamp_def)

lemma Clamp_inside: "lo \<le> v \<Longrightarrow> v < hi \<Longrightarrow> Clamp v lo hi = v"
  by (simp add: Clamp_def)

lemma floor_in_stencil:
  assumes "0.5 \<le> x" and "x \<le> of_int (N - 2) + 0.5"
  shows "0 \<le> FloorToInt x" and "FloorToInt x + 1 \<le> N - 1"
proof -
  show "0 \<le> FloorToInt x" using assms(1) by (simp add: FloorToInt_def)
  have "x < of_int (N - 1)" using assms(2) by simp
  then have "\<lfloor>x\<rfloor> < N - 1" by (simp only: floor_less_iff)
  then show "FloorToInt x + 1 \<le> N - 1" by (simp add: FloorToInt_def)
qed

lemma Advect_sample_total:
  assumes N: "3 \<le> N" and d0: "fits N d0"
    and x: "0.5 \<le> x" "x \<le> of_int (N - 2) + 0.5" and y: "0.5 \<le> y" "y \<le> of_int (N - 2) + 0.5"
  shows "Advect_sample N d0 x y =
    Some ((1 - (x - of_int (FloorToInt x))) *
            ((1 - (y - of_int (FloorToInt y))) * cell N d0 (FloorToInt x) (FloorToInt y) +
             (y - of_int (FloorToInt y)) * cell N d0 (FloorToInt x) (FloorToInt y + 1)) +
          (x - of_int (FloorToInt x)) *
            ((1 - (y - of_int (FloorToInt y))) * cell N d0 (FloorToInt x + 1) (FloorToInt y) +
             (y - of_int (FloorToInt y)) * cell N d0 (FloorToInt x + 1) (FloorToInt y + 1)))"
proof -
  note fx = floor_in_stencil [OF x] and fy = floor_in_stencil [OF y]
  have g: "in_grid N (FloorToInt x) (FloorToInt y)" "in_grid N (FloorToInt x) (FloorToInt y + 1)"
    "in_grid N (FloorToInt x + 1) (FloorToInt y)" "in_grid N (FloorToInt x + 1) (FloorToInt y + 1)"
    using fx fy by (auto simp: in_grid_def)
  show ?thesis
    by (simp add: Advect_sample_def Let_def rd_cell [OF d0] g)
qed

lemma Advect_trace_total:
  assumes N: "3 \<le> N" and v: "fits N velocX" "fits N velocY" and ij: "interior N i j"
  shows "\<exists>x y. Advect_trace N velocX velocY dt j i = Some (x, y) \<and>
    0.5 \<le> x \<and> x \<le> of_int (N - 2) + 0.5 \<and> 0.5 \<le> y \<and> y \<le> of_int (N - 2) + 0.5"
proof -
  have le: "(0.5::real) \<le> of_int (N - 2) + 0.5" using N by simp
  define x where "x = Clamp (of_int i - dt * of_int (N - 2) * cell N velocX i j) 0.5 (of_int (N - 2) + 0.5)"
  define y where "y = Clamp (of_int j - dt * of_int (N - 2) * cell N velocY i j) 0.5 (of_int (N - 2) + 0.5)"
  have "Advect_trace N velocX velocY dt j i = Some (x, y)"
    unfolding x_def y_def
    by (simp add: Advect_trace_def Let_def rd_cell [OF v(1)] rd_cell [OF v(2)]
        interior_in_grid [OF ij])
  moreover have "0.5 \<le> x" "x \<le> of_int (N - 2) + 0.5" "0.5 \<le> y" "y \<le> of_int (N - 2) + 0.5"
    unfolding x_def y_def by (rule Clamp_bounds [OF le])+
  ultimately show ?thesis by blast
qed





text \<open>
  C6: in \<open>Advect\<close>, for every interior cell and whatever the velocities and \<open>dt\<close> are,
  the traced-back coordinates lie in \<open>[0.5, N - 1.5]\<close>, the four stencil indices
  \<open>i0\<close>, \<open>i1 = i0 + 1\<close>, \<open>j0\<close>, \<open>j1 = j0 + 1\<close> lie in \<open>[0, N - 1]\<close>, and the four reads of
  \<open>d0\<close> pass the range check.
\<close>

theorem Advect_stencil_in_bounds:
  assumes "3 \<le> N" and "fits N velocX" and "fits N velocY" and "fits N d0" and "interior N i j"
  shows "\<exists>x y. Advect_trace N velocX velocY dt j i = Some (x, y) \<and>
    0.5 \<le> x \<and> x \<le> of_int N - 1.5 \<and> 0.5 \<le> y \<and> y \<le> of_int N - 1.5 \<and>
    0 \<le> FloorToInt x \<and> FloorToInt x + 1 \<le> N - 1 \<and>
    0 \<le> FloorToInt y \<and> FloorToInt y + 1 \<le> N - 1 \<and>
    (\<exists>a. rd d0 (IX N (FloorToInt x) (FloorToInt y)) = Some a) \<and>
    (\<exists>a. rd d0 (IX N (FloorToInt x) (FloorToInt y + 1)) = Some a) \<and>
    (\<exists>a. rd d0 (IX N (FloorToInt x + 1) (FloorToInt y)) = Some a) \<and>
    (\<exists>a. rd d0 (IX N (FloorToInt x + 1) (FloorToInt y + 1)) = Some a) \<and>
    (\<exists>v. Advect_sample N d0 x y = Some v)"
proof -
  from Advect_trace_total [OF assms(1,2,3,5), of dt] obtain x y where
    t: "Advect_trace N velocX velocY dt j i = Some (x, y)"
    and x: "0.5 \<le> x" "x \<le> of_int (N - 2) + 0.5" and y: "0.5 \<le> y" "y \<le> of_int (N - 2) + 0.5"
    by blast
  note fx = floor_in_stencil [OF x] and fy = floor_in_stencil [OF y]
  have g: "in_grid N (FloorToInt x) (FloorToInt y)" "in_grid N (FloorToInt x) (FloorToInt y + 1)"
    "in_grid N (FloorToInt x + 1) (FloorToInt y)" "in_grid N (FloorToInt x + 1) (FloorToInt y + 1)"
    using fx fy by (auto simp: in_grid_def)
  have "x \<le> of_int N - 1.5" "y \<le> of_int N - 1.5" using x(2) y(2) by simp_all
  moreover have "\<exists>v. Advect_sample N d0 x y = Some v"
    using Advect_sample_total [OF assms(1,4) x y] by simp
  ultimately show ?thesis
    using t x(1) y(1) fx fy by (simp add: rd_cell [OF assms(4)] g)
qed

theorem Advect_stencil_in_bounds_witness:
  "(3::int) \<le> 3 \<and> fits 3 [0, 0, 0, 0, 1000, 0, 0, 0, 0] \<and> fits 3 [0, 0, 0, 0, - 7, 0, 0, 0, 0] \<and>
   fits 3 [1, 2, 3, 4, 5, 6, 7, 8, 9] \<and> interior 3 1 1 \<and>
   (\<exists>x y. Advect_trace 3 [0, 0, 0, 0, 1000, 0, 0, 0, 0] [0, 0, 0, 0, - 7, 0, 0, 0, 0] 10.1 1 1
       = Some (x, y) \<and>
    0.5 \<le> x \<and> x \<le> of_int 3 - 1.5 \<and> 0.5 \<le> y \<and> y \<le> of_int 3 - 1.5 \<and>
    0 \<le> FloorToInt x \<and> FloorToInt x + 1 \<le> 3 - 1 \<and>
    0 \<le> FloorToInt y \<and> FloorToInt y + 1 \<le> 3 - 1 \<and>
    (\<exists>a. rd [1, 2, 3, 4, 5, 6, 7, 8, 9] (IX 3 (FloorToInt x) (FloorToInt y)) = Some a) \<and>
    (\<exists>a. rd [1, 2, 3, 4, 5, 6, 7, 8, 9] (IX 3 (FloorToInt x) (FloorToInt y + 1)) = Some a) \<and>
    (\<exists>a. rd [1, 2, 3, 4, 5, 6, 7, 8, 9] (IX 3 (FloorToInt x + 1) (FloorToInt y)) = Some a) \<and>
    (\<exists>a. rd [1, 2, 3, 4, 5, 6, 7, 8, 9] (IX 3 (FloorToInt x + 1) (FloorToInt y + 1)) = Some a) \<and>
    (\<exists>v. Advect_sample 3 [1, 2, 3, 4, 5, 6, 7, 8, 9] x y = Some v))"
proof -
  have h: "(3::int) \<le> 3" "fits 3 [0, 0, 0, 0, 1000, 0, 0, 0, 0]"
    "fits 3 [0, 0, 0, 0, - 7, 0, 0, 0, 0]" "fits 3 [1, 2, 3, 4, 5, 6, 7, 8, 9]" "interior 3 1 1"
    by (simp_all add: fits_def interior_def)
  show ?thesis using h Advect_stencil_in_bounds [OF h, of "10.1"] by blast
qed

lemma Advect_cell_still:
  assumes N: "3 \<le> N" and d: "fits N d" and d0: "fits N d0" and ij: "interior N i j"
  shows "Advect_cell N d0 (zeros N) (zeros N) dt j i d = Some (put N d i j (cell N d0 i j))"
proof -
  note g = interior_in_grid [OF ij]
  have b: "(0.5::real) \<le> of_int i" "(of_int i::real) < of_int (N - 2) + 0.5"
    "(0.5::real) \<le> of_int j" "(of_int j::real) < of_int (N - 2) + 0.5"
    using ij by (auto simp: interior_def)
  have t: "Advect_trace N (zeros N) (zeros N) dt j i = Some (of_int i, of_int j)"
    using b by (simp add: Advect_trace_def Let_def rd_cell [OF fits_zeros g] g Clamp_def)
  have "Advect_sample N d0 (of_int i) (of_int j) = Some (cell N d0 i j)"
    using b by (subst Advect_sample_total [OF N d0]) (simp_all add: FloorToInt_def)
  then show ?thesis by (simp add: Advect_cell_def t wr_put [OF d g])
qed

lemma Advect_interior_still:
  assumes N: "3 \<le> N" and d: "fits N d" and d0: "fits N d0"
  shows "\<exists>r. for_loop [1..N - 2] (\<lambda>j. for_loop [1..N - 2]
            (Advect_cell N d0 (zeros N) (zeros N) dt j)) d = Some r \<and> fits N r \<and>
          (\<forall>i j. interior N i j \<longrightarrow> cell N r i j = cell N d0 i j)"
proof -
  define I where "I j i s \<longleftrightarrow> fits N s \<and>
    (\<forall>i' j'. swept N j i i' j' \<longrightarrow> cell N s i' j' = cell N d0 i' j')" for j i s
  have "\<exists>r. for_loop [1..N - 2] (\<lambda>j. for_loop [1..N - 2]
            (Advect_cell N d0 (zeros N) (zeros N) dt j)) d = Some r \<and> I (N - 1) 1 r"
  proof (rule grid_loop [OF N])
    show "I 1 1 d" using d by (simp add: I_def)
  next
    fix j s assume "I j (N - 1) s"
    then show "I (j + 1) 1 s" by (simp add: I_def swept_row_end)
  next
    fix i j s assume ij: "interior N i j" and inv: "I j i s"
    from inv have s: "fits N s" by (simp add: I_def)
    have "I j (i + 1) (put N s i j (cell N d0 i j))"
      unfolding I_def
    proof (intro conjI allI impI)
      show "fits N (put N s i j (cell N d0 i j))" using s by simp
      fix i' j' assume sw: "swept N j (i + 1) i' j'"
      then have "in_grid N i' j'" by (simp add: swept_def interior_in_grid)
      from cell_put [OF s interior_in_grid [OF ij] this] sw inv
      show "cell N (put N s i j (cell N d0 i j)) i' j' = cell N d0 i' j'"
        by (auto simp: I_def swept_next [OF ij])
    qed
    then show "\<exists>s'. Advect_cell N d0 (zeros N) (zeros N) dt j i s = Some s' \<and> I j (i + 1) s'"
      by (simp add: Advect_cell_still [OF N s d0 ij])
  qed
  then show ?thesis by (auto simp: I_def swept_end)
qed

text \<open>
  C7, as amended: advecting through an everywhere-zero velocity on a grid of side at
  least 3 gives \<open>SetBoundary b\<close> of the source field \<open>d0\<close>: the result equals \<open>d0\<close> at
  every interior cell, and its boundary ring is recomputed from that interior.
\<close>

theorem Advect_zero_velocity:
  assumes "3 \<le> N" and "fits N d" and "fits N d0"
  shows "\<exists>r. Advect N b d d0 (zeros N) (zeros N) dt = Some r \<and> SetBoundary N b d0 = Some r \<and>
          (\<forall>i j. interior N i j \<longrightarrow> cell N r i j = cell N d0 i j)"
proof -
  from Advect_interior_still [OF assms, of dt] obtain d1 where
    d1: "for_loop [1..N - 2] (\<lambda>j. for_loop [1..N - 2]
            (Advect_cell N d0 (zeros N) (zeros N) dt j)) d = Some d1" "fits N d1"
    and c1: "\<And>i j. interior N i j \<Longrightarrow> cell N d1 i j = cell N d0 i j" by blast
  from SetBoundary_cells [OF assms(1) d1(2), of b] obtain r where
    r: "SetBoundary N b d1 = Some r" "fits N r"
    and cr: "\<And>i j. in_grid N i j \<Longrightarrow> cell N r i j = bnd_val N b d1 i j" by blast
  from SetBoundary_cells [OF assms(1,3), of b] obtain r0 where
    r0: "SetBoundary N b d0 = Some r0" "fits N r0"
    and cr0: "\<And>i j. in_grid N i j \<Longrightarrow> cell N r0 i j = bnd_val N b d0 i j" by blast
  have "r0 = r"
  proof (rule field_eqI [of N])
    show "0 < N" using assms(1) by simp
    show "fits N r0" "fits N r" by (rule r0 r)+
    fix i j assume ij: "in_grid N i j"
    show "cell N r0 i j = cell N r i j"
      by (simp add: cr cr0 ij bnd_val_interior_cong [OF assms(1) c1 ij])
  qed
  moreover have "cell N r i j = cell N d0 i j" if "interior N i j" for i j
    using that by (simp add: cr interior_in_grid bnd_val_interior c1)
  moreover have "Advect N b d d0 (zeros N) (zeros N) dt = Some r"
    by (simp add: Advect_def d1 r)
  ultimately show ?thesis using r0 by blast
qed

theorem Advect_zero_velocity_witness:
  "(3::int) \<le> 3 \<and> fits 3 [0, 0, 0, 0, 0, 0, 0, 0, 0] \<and> fits 3 [1, 2, 3, 4, 5, 6, 7, 8, 9] \<and>
   interior 3 1 1 \<and>
   (\<exists>r. Advect 3 0 [0, 0, 0, 0, 0, 0, 0, 0, 0] [1, 2, 3, 4, 5, 6, 7, 8, 9] (zeros 3) (zeros 3) 10.1
          = Some r \<and>
        SetBoundary 3 0 [1, 2, 3, 4, 5, 6, 7, 8, 9] = Some r \<and>
        (\<forall>i j. interior 3 i j \<longrightarrow> cell 3 r i j = cell 3 [1, 2, 3, 4, 5, 6, 7, 8, 9] i j))"
proof -
  have h: "(3::int) \<le> 3" "fits 3 [0, 0, 0, 0, 0, 0, 0, 0, 0]" "fits 3 [1, 2, 3, 4, 5, 6, 7, 8, 9]"
    by (simp_all add: fits_def)
  have i: "interior 3 1 1" by (simp add: interior_def)
  show ?thesis using h i Advect_zero_velocity [OF h, of 0 "10.1"] by blast
qed

text \<open>
  C7, as stated, fails at the boundary: with zero velocity, the 3 by 3 source field that
  is 1 in corner \<open>(0,0)\<close> and 0 elsewhere is advected to the zero field.
\<close>

theorem Advect_zero_velocity_counterexample:
  "Advect 3 0 [0, 0, 0, 0, 0, 0, 0, 0, 0] [1, 0, 0, 0, 0, 0, 0, 0, 0]
      [0, 0, 0, 0, 0, 0, 0, 0, 0] [0, 0, 0, 0, 0, 0, 0, 0, 0] 1
    = Some [0, 0, 0, 0, 0, 0, 0, 0, 0] \<and>
   [0, 0, 0, 0, 0, 0, 0, 0, 0] \<noteq> [1, 0, 0, 0, 0, 0, 0, 0, 0 :: real]"
  by (simp add: Advect_def Advect_cell_def Advect_trace_def Advect_sample_def Clamp_def
      FloorToInt_def rd_def wr_def IX_def SetBoundary_def SetBoundary_row_def SetBoundary_col_def
      SetBoundary_corners_def Let_def)

section \<open>\<open>StepSimulation\<close>\<close>





text \<open>
  \<open>StepSimulation\<close> as written is that step preceded by its own forcing: lines 151--152
  add 100 to the density and \<open>(1, 0)\<close> to the velocity of the centre cell on every call.
  From the all-zero 3 by 3 solver, one call leaves the density at 100 in every cell.
\<close>

lemma StepSimulation_injects:
  "map_option Density (StepSimulation rest3) = Some [100, 100, 100, 100, 100, 100, 100, 100, 100]"
  unfolding rest3_def
  by (simp add: StepSimulation_def Step_solve_def Step_copy_def Step_diffuse_velocity_def
      Step_project_def Step_advect_velocity_def Step_density_def Step_inject_def trunc_div_def AddDensity_def
      AddVelocity_def solver.defs frame.defs
      rd_def wr_def IX_def Clamp_def FloorToInt_def Let_def
      SetBoundary_def SetBoundary_row_def SetBoundary_col_def SetBoundary_corners_def
      LinearSolve_def LinearSolve_sweep_def LinearSolve_cell_def Diffuse_def
      Advect_def Advect_cell_def Advect_trace_def Advect_sample_def
      Project_def Project_div_def Project_grad_def upto_rec1)

lemma StepSimulation_split:
  "StepSimulation s = do {
     f \<leftarrow> Step_until_advect s;
     f \<leftarrow> Step_advect_velocity f;
     f \<leftarrow> Step_project f;
     f \<leftarrow> Step_density f;
     Some (solver.truncate f)
   }"
  by (simp add: StepSimulation_def Step_solve_def Step_until_advect_def)

text \<open>
  C2: the claim wants the velocity advection of lines 169--170 to read the velocity
  left by diffusion and the first projection. From the all-zero 3 by 3 solver, the frame
  that reaches line 169 holds that velocity in \<open>Vx\<close> (non-zero), while \<open>Vx0\<close> and \<open>Vy0\<close>,
  the buffers the calls pass as \<open>d0\<close>, \<open>velocX\<close> and \<open>velocY\<close>, hold the pressure and the
  divergence that \<open>Project\<close> wrote into them (both zero here); the advection then
  replaces the velocity by the zero field.
\<close>

theorem StepSimulation_advects_scratch:
  "Step_until_advect rest3 =
     Some \<lparr>Size = 3, Dt = 10.1, Diffusion = 1, Viscosity = 1,
       Density = [0, 0, 0, 0, 100, 0, 0, 0, 0],
       Vx = [0, 5 / 207, 0, - (5 / 207), 5 / 207, - (5 / 207), 0, 5 / 207, 0],
       Vy = [0, 0, 0, 0, 0, 0, 0, 0, 0], Vz = [0, 0, 0, 0, 0, 0, 0, 0, 0],
       Vx0 = [0, 0, 0, 0, 0, 0, 0, 0, 0], Vy0 = [0, 0, 0, 0, 0, 0, 0, 0, 0],
       Density0 = [0, 0, 0, 0, 100, 0, 0, 0, 0]\<rparr> \<and>
   Option.bind (Step_until_advect rest3) Step_advect_velocity =
     Some \<lparr>Size = 3, Dt = 10.1, Diffusion = 1, Viscosity = 1,
       Density = [0, 0, 0, 0, 100, 0, 0, 0, 0],
       Vx = [0, 0, 0, 0, 0, 0, 0, 0, 0],
       Vy = [0, 0, 0, 0, 0, 0, 0, 0, 0], Vz = [0, 0, 0, 0, 0, 0, 0, 0, 0],
       Vx0 = [0, 0, 0, 0, 0, 0, 0, 0, 0], Vy0 = [0, 0, 0, 0, 0, 0, 0, 0, 0],
       Density0 = [0, 0, 0, 0, 100, 0, 0, 0, 0]\<rparr>"
  unfolding rest3_def
  by (simp add: Step_until_advect_def Step_copy_def Step_diffuse_velocity_def
      Step_project_def Step_advect_velocity_def Step_inject_def trunc_div_def AddDensity_def
      AddVelocity_def solver.defs frame.defs
      rd_def wr_def IX_def Clamp_def FloorToInt_def Let_def
      SetBoundary_def SetBoundary_row_def SetBoundary_col_def SetBoundary_corners_def
      LinearSolve_def LinearSolve_sweep_def LinearSolve_cell_def Diffuse_def
      Advect_def Advect_cell_def Advect_trace_def Advect_sample_def
      Project_def Project_div_def Project_grad_def upto_rec1)

end
